theory Spec2Isabelle
  imports Main "HOL-Library.Sublist"
begin

section \<open>Python strings, exceptions and calendar dates\<close>

text \<open>
  A Python \<open>str\<close> is a sequence of Unicode code points, so \<open>len\<close> counts code points
  and \<open>str.isdigit\<close> accepts digits outside ASCII. A string is therefore a list of code
  points; \<open>ascii\<close> embeds an Isabelle string literal.
\<close>

type_synonym ustring = "nat list"

definition ascii :: "string \<Rightarrow> ustring" where
  "ascii s = map of_char s"

text \<open>
  The exception classes the two modules distinguish in their handlers. \<open>PsycopgError\<close>
  and \<open>S3Error\<close> stand for the class with its subclasses, \<open>OtherException\<close> for every
  other subclass of \<open>Exception\<close>.
\<close>

datatype exn = ValueError | S3Error | PsycopgError | DataInjectionError | OtherException

text \<open>
  What the Python runtime supplies beyond the repository is a parameter. The ASCII part
  of the Unicode character database is fixed here; for the code points from 128 on,
  \<open>other_digit\<close> is \<open>str.isdigit\<close> on one code point and \<open>other_decimal\<close> the value of
  a code point that the regular expression \<open>\d\<close> matches and \<open>int\<close> reads.
  \<open>pads_year\<close> says whether the C library's \<open>strftime\<close> fills a year below 1000 with
  zeros to four digits (glibc does not).
\<close>

record runtime =
  other_digit :: "nat \<Rightarrow> bool"
  other_decimal :: "nat \<Rightarrow> nat option"
  pads_year :: bool

definition ascii_digit :: "nat \<Rightarrow> bool" where
  "ascii_digit c \<longleftrightarrow> 48 \<le> c \<and> c \<le> 57"

definition isdigit_cp :: "runtime \<Rightarrow> nat \<Rightarrow> bool" where
  "isdigit_cp u c = (if c < 128 then ascii_digit c else other_digit u c)"

definition decimal_cp :: "runtime \<Rightarrow> nat \<Rightarrow> nat option" where
  "decimal_cp u c =
     (if c < 128 then (if ascii_digit c then Some (c - 48) else None) else other_decimal u c)"

text \<open>\<open>str.isdigit\<close>: every character is a digit and there is at least one.\<close>

definition isdigit :: "runtime \<Rightarrow> ustring \<Rightarrow> bool" where
  "isdigit u s \<longleftrightarrow> s \<noteq> [] \<and> list_all (isdigit_cp u) s"

text \<open>
  \<open>int(s)\<close> on a group of the match: surrounding blanks are stripped, every remaining
  character must be a decimal digit.
\<close>

definition py_int :: "runtime \<Rightarrow> ustring \<Rightarrow> nat option" where
  "py_int u s =
     (let t = dropWhile (\<lambda>c. c = 32) s in
      if t = [] \<or> \<not> list_all (\<lambda>c. decimal_cp u c \<noteq> None) t then None
      else Some (foldl (\<lambda>acc c. 10 * acc + (case decimal_cp u c of Some v \<Rightarrow> v | None \<Rightarrow> 0)) 0 t))"

record date =
  year :: nat
  month :: nat
  day :: nat

definition is_leap :: "nat \<Rightarrow> bool" where
  "is_leap y \<longleftrightarrow> y mod 4 = 0 \<and> (y mod 100 \<noteq> 0 \<or> y mod 400 = 0)"

definition days_in_month :: "nat \<Rightarrow> nat \<Rightarrow> nat" where
  "days_in_month y m =
     (if m = 2 then (if is_leap y then 29 else 28)
      else if m = 4 \<or> m = 6 \<or> m = 9 \<or> m = 11 then 30 else 31)"

text \<open>The check of the \<open>datetime.date\<close> constructor (\<open>MINYEAR = 1\<close>, \<open>MAXYEAR = 9999\<close>).\<close>

definition valid_ymd :: "nat \<Rightarrow> nat \<Rightarrow> nat \<Rightarrow> bool" where
  "valid_ymd y m d \<longleftrightarrow>
     1 \<le> y \<and> y \<le> 9999 \<and> 1 \<le> m \<and> m \<le> 12 \<and> 1 \<le> d \<and> d \<le> days_in_month y m"

subsection \<open>\<open>datetime.strptime(date, "%Y%m%d")\<close>\<close>

text \<open>
  The library compiles the format to the regular expression
  \<^verbatim>\<open>(?P<Y>\d\d\d\d)(?P<m>1[0-2]|0[1-9]|[1-9])(?P<d>3[0-1]|[1-2]\d|0[1-9]|[1-9]| [1-9])\<close>
  and matches it at the start of the string. Alternatives are tried from left to right
  and the first combination that matches wins; there is no anchor at the end. Each
  function below lists the lengths a group can take at the front of its input, in the
  order the matcher tries them.
\<close>

definition re_Y :: "runtime \<Rightarrow> ustring \<Rightarrow> nat list" where
  "re_Y u s =
     (if 4 \<le> length s \<and> list_all (\<lambda>c. decimal_cp u c \<noteq> None) (take 4 s) then [4] else [])"

definition re_m :: "ustring \<Rightarrow> nat list" where
  "re_m s =
     (case s of
        a # b # _ \<Rightarrow>
          (if a = 49 \<and> 48 \<le> b \<and> b \<le> 50 then [2] else []) @
          (if a = 48 \<and> 49 \<le> b \<and> b \<le> 57 then [2] else []) @
          (if 49 \<le> a \<and> a \<le> 57 then [1] else [])
      | [a] \<Rightarrow> (if 49 \<le> a \<and> a \<le> 57 then [1] else [])
      | [] \<Rightarrow> [])"

definition re_d :: "runtime \<Rightarrow> ustring \<Rightarrow> nat list" where
  "re_d u s =
     (case s of
        a # b # _ \<Rightarrow>
          (if a = 51 \<and> 48 \<le> b \<and> b \<le> 49 then [2] else []) @
          (if 49 \<le> a \<and> a \<le> 50 \<and> decimal_cp u b \<noteq> None then [2] else []) @
          (if a = 48 \<and> 49 \<le> b \<and> b \<le> 57 then [2] else []) @
          (if 49 \<le> a \<and> a \<le> 57 then [1] else []) @
          (if a = 32 \<and> 49 \<le> b \<and> b \<le> 57 then [2] else [])
      | [a] \<Rightarrow> (if 49 \<le> a \<and> a \<le> 57 then [1] else [])
      | [] \<Rightarrow> [])"

text \<open>All ways the expression matches a prefix, in the matcher's order: groups Y, m, d.\<close>

definition re_matches :: "runtime \<Rightarrow> ustring \<Rightarrow> (ustring \<times> ustring \<times> ustring) list" where
  "re_matches u s =
     concat (map (\<lambda>y.
       concat (map (\<lambda>m.
         map (\<lambda>d. (take y s, take m (drop y s), take d (drop (y + m) s)))
             (re_d u (drop (y + m) s)))
         (re_m (drop y s))))
       (re_Y u s))"

definition strptime :: "runtime \<Rightarrow> ustring \<Rightarrow> exn + date" where
  "strptime u s =
     (case re_matches u s of
        [] \<Rightarrow> Inl ValueError
      | (Y, m, d) # _ \<Rightarrow>
          if length s \<noteq> length Y + length m + length d then Inl ValueError
          else (case (py_int u Y, py_int u m, py_int u d) of
                  (Some y, Some mo, Some dd) \<Rightarrow>
                    if valid_ymd y mo dd then Inr \<lparr>year = y, month = mo, day = dd\<rparr>
                    else Inl ValueError
                | _ \<Rightarrow> Inl ValueError))"

subsection \<open>\<open>strftime("%Y-%m-%d")\<close>\<close>

text \<open>
  Month and day are written with two digits. The year is written with four digits from
  1000 on; below, the runtime decides whether it is filled with zeros.
\<close>

definition pad2 :: "nat \<Rightarrow> ustring" where
  "pad2 n = [48 + n div 10 mod 10, 48 + n mod 10]"

definition pad4 :: "nat \<Rightarrow> ustring" where
  "pad4 n = [48 + n div 1000 mod 10, 48 + n div 100 mod 10, 48 + n div 10 mod 10, 48 + n mod 10]"

definition unpadded :: "nat \<Rightarrow> ustring" where
  "unpadded n =
     (if n < 10 then [48 + n]
      else if n < 100 then pad2 n
      else if n < 1000 then [48 + n div 100 mod 10, 48 + n div 10 mod 10, 48 + n mod 10]
      else pad4 n)"

definition strftime :: "runtime \<Rightarrow> date \<Rightarrow> ustring" where
  "strftime u dt =
     (if pads_year u then pad4 (year dt) else unpadded (year dt)) @ [45] @
     pad2 (month dt) @ [45] @ pad2 (day dt)"

subsection \<open>\<open>validate_date\<close>\<close>

text \<open>
  Both modules define the same function. Only \<open>ValueError\<close> is caught; any other
  exception of the parser would leave the function.
\<close>

definition validate_date :: "runtime \<Rightarrow> ustring \<Rightarrow> exn + bool" where
  "validate_date u date =
     (if length date \<noteq> 8 \<or> \<not> isdigit u date then Inr False
      else (case strptime u date of
              Inr _ \<Rightarrow> Inr True
            | Inl e \<Rightarrow> if e = ValueError then Inr False else Inl e))"

text \<open>
  What the specification calls a real calendar date in \<open>YYYYMMDD\<close> form: eight ASCII
  digits whose year, month and day fields denote a date of the calendar.
\<close>

definition ascii_value :: "ustring \<Rightarrow> nat" where
  "ascii_value s = foldl (\<lambda>acc c. 10 * acc + (c - 48)) 0 s"

definition real_calendar_date :: "ustring \<Rightarrow> bool" where
  "real_calendar_date s \<longleftrightarrow>
     length s = 8 \<and> list_all ascii_digit s \<and>
     valid_ymd (ascii_value (take 4 s)) (ascii_value (take 2 (drop 4 s))) (ascii_value (drop 6 s))"


text \<open>
  A sample runtime: of the non-ASCII tables the Arabic-Indic digits U+0660 to U+0669,
  which are decimal digits of value 0 to 9, and a C library that does not fill the year.
\<close>

definition sample_runtime :: runtime where
  "sample_runtime =
     \<lparr>other_digit = (\<lambda>c. 1632 \<le> c \<and> c \<le> 1641),
      other_decimal = (\<lambda>c. if 1632 \<le> c \<and> c \<le> 1641 then Some (c - 1632) else None),
      pads_year = False\<rparr>"

section \<open>The extract\<close>

text \<open>
  A cell of the data frame is missing (\<open>NaN\<close> or \<open>None\<close>), a text or a number. The code
  never computes with numbers, it only compares cells and hands them to the database,
  so the type of numbers is left open. With one constructor for a missing value,
  \<open>df.where(pd.notnull(df), None)\<close> is the identity.
\<close>

datatype 'n cell = Null | Str ustring | Num 'n

text \<open>
  One row of the frame, with the columns both modules read (the column \<open>size\<close> is named
  \<open>size_col\<close> here). A frame is the list of its rows in order.
\<close>

record 'n sale_record =
  customer_id :: "'n cell"
  first_name :: "'n cell"
  last_name :: "'n cell"
  email :: "'n cell"
  country :: "'n cell"
  signup_date :: "'n cell"
  gender :: "'n cell"
  age_range :: "'n cell"
  product_id :: "'n cell"
  product_name :: "'n cell"
  brand :: "'n cell"
  category :: "'n cell"
  cost_price :: "'n cell"
  color :: "'n cell"
  size_col :: "'n cell"
  catalog_price :: "'n cell"
  sale_id :: "'n cell"
  sale_date :: "'n cell"
  channel :: "'n cell"
  channel_campaigns :: "'n cell"
  item_id :: "'n cell"
  quantity :: "'n cell"
  discount_applied :: "'n cell"

type_synonym 'n frame = "'n sale_record list"

text \<open>\<open>DataFrame.drop_duplicates()\<close> keeps the first of equal rows and the order.\<close>

fun drop_duplicates :: "'a list \<Rightarrow> 'a list" where
  "drop_duplicates [] = []"
| "drop_duplicates (x # xs) = x # drop_duplicates (filter (\<lambda>y. y \<noteq> x) xs)"

section \<open>The external services\<close>

text \<open>
  The four \<open>INSERT ... ON CONFLICT (key) DO NOTHING\<close> statements with their parameter
  tuples, in the order of the columns of the statement.
\<close>

datatype 'n stmt =
    InsertClient "'n cell list"
  | InsertProduct "'n cell list"
  | InsertSale "'n cell list"
  | InsertSaleProduct "'n cell list"

text \<open>
  Every call that leaves the process is recorded: opening a connection, the existence
  query with its date, an insert, a commit, leaving the \<open>with psycopg.connect(...)\<close>
  block (\<open>True\<close> when an exception is in flight), closing a connection, and fetching and
  parsing the object of a bucket.
\<close>

datatype 'n event =
    PgConnect
  | PgSelectSaleExists ustring
  | PgExecute "'n stmt"
  | PgCommit
  | PgExit bool
  | PgClose
  | S3GetObject ustring ustring

text \<open>
  PostgreSQL and the object store are not part of the repository. Their behaviour is a
  parameter: each call maps the state \<open>'w\<close> of the outside world to a result or an
  exception, and a new state. \<open>pg_select_sale_exists\<close> is the \<open>SELECT EXISTS\<close> query with
  the fetch of its one value; \<open>s3_get_csv\<close> is the download with \<open>pd.read_csv\<close>.
\<close>

record ('n, 'w) env =
  rt :: runtime
  pg_connect :: "'w \<Rightarrow> (exn + unit) \<times> 'w"
  pg_select_sale_exists :: "ustring \<Rightarrow> 'w \<Rightarrow> (exn + bool) \<times> 'w"
  pg_execute :: "'n stmt \<Rightarrow> 'w \<Rightarrow> (exn + unit) \<times> 'w"
  pg_commit :: "'w \<Rightarrow> (exn + unit) \<times> 'w"
  pg_exit :: "bool \<Rightarrow> 'w \<Rightarrow> (exn + unit) \<times> 'w"
  pg_close :: "'w \<Rightarrow> (exn + unit) \<times> 'w"
  s3_get_csv :: "ustring \<Rightarrow> ustring \<Rightarrow> 'w \<Rightarrow> (exn + 'n frame) \<times> 'w"

text \<open>The state of a run: the calls made so far and the outside world.\<close>

type_synonym ('n, 'w) state = "'n event list \<times> 'w"

definition call ::
  "'n event \<Rightarrow> ('w \<Rightarrow> (exn + 'a) \<times> 'w) \<Rightarrow> ('n, 'w) state \<Rightarrow> (exn + 'a) \<times> ('n, 'w) state" where
  "call ev f s = (case f (snd s) of (r, w) \<Rightarrow> (r, (fst s @ [ev], w)))"

section \<open>The class \<open>DataInjection\<close> of \<open>src/main.py\<close>\<close>

record data_injection =
  bucket :: ustring
  file_attr :: ustring

text \<open>\<open>except psycopg.Error\<close> raising \<open>DataInjectionError\<close>; other exceptions pass.\<close>

definition on_psycopg_error :: "exn \<Rightarrow> exn" where
  "on_psycopg_error e = (if e = PsycopgError then DataInjectionError else e)"

definition on_s3_error :: "exn \<Rightarrow> exn" where
  "on_s3_error e = (if e = S3Error then DataInjectionError else e)"

definition extract_data_from_minio ::
  "('n, 'w) env \<Rightarrow> data_injection \<Rightarrow> ustring \<Rightarrow> ('n, 'w) state \<Rightarrow>
     (exn + 'n frame) \<times> ('n, 'w) state" where
  "extract_data_from_minio env self date s =
     (case strptime (rt env) date of
        Inl e \<Rightarrow> (Inl e, s)
      | Inr dt \<Rightarrow>
          let formatted_date = strftime (rt env) dt in
          (case call (S3GetObject (bucket self) (file_attr self))
                  (s3_get_csv env (bucket self) (file_attr self)) s of
             (Inl e, s1) \<Rightarrow> (Inl (on_s3_error e), s1)
           | (Inr df, s1) \<Rightarrow>
               (Inr (drop_duplicates (filter (\<lambda>row. sale_date row = Str formatted_date) df)), s1)))"

text \<open>
  The result of the query is returned from inside the \<open>with\<close> block, so the block is
  left (which commits and closes) before the caller sees it. When an exception is in
  flight the library rolls back and only logs what the rollback raises.
\<close>

definition check_date_exists ::
  "('n, 'w) env \<Rightarrow> ustring \<Rightarrow> ('n, 'w) state \<Rightarrow> (exn + bool) \<times> ('n, 'w) state" where
  "check_date_exists env date s =
     (case strptime (rt env) date of
        Inl e \<Rightarrow> (Inl e, s)
      | Inr dt \<Rightarrow>
          let formatted_date = strftime (rt env) dt in
          (case call PgConnect (pg_connect env) s of
             (Inl e, s1) \<Rightarrow> (Inl (on_psycopg_error e), s1)
           | (Inr _, s1) \<Rightarrow>
               (case call (PgSelectSaleExists formatted_date)
                       (pg_select_sale_exists env formatted_date) s1 of
                  (Inl e, s2) \<Rightarrow>
                    (case call (PgExit True) (pg_exit env True) s2 of
                       (_, s3) \<Rightarrow> (Inl (on_psycopg_error e), s3))
                | (Inr exists, s2) \<Rightarrow>
                    (case call (PgExit False) (pg_exit env False) s2 of
                       (Inl e, s3) \<Rightarrow> (Inl (on_psycopg_error e), s3)
                     | (Inr _, s3) \<Rightarrow> (Inr exists, s3)))))"

text \<open>The four statements of one row, in the order the loop body issues them.\<close>

definition row_statements :: "'n sale_record \<Rightarrow> 'n stmt list" where
  "row_statements row =
     [InsertClient [customer_id row, first_name row, last_name row, email row, country row,
                    signup_date row, gender row, age_range row],
      InsertProduct [product_id row, product_name row, brand row, category row, cost_price row,
                     color row, size_col row, catalog_price row],
      InsertSale [sale_id row, sale_date row, channel row, channel_campaigns row,
                  customer_id row],
      InsertSaleProduct [item_id row, sale_id row, product_id row, quantity row,
                         discount_applied row]]"

text \<open>Consecutive \<open>cur.execute\<close> calls: the first exception ends the sequence.\<close>

fun execute_all ::
  "('n, 'w) env \<Rightarrow> 'n stmt list \<Rightarrow> ('n, 'w) state \<Rightarrow> (exn + unit) \<times> ('n, 'w) state" where
  "execute_all env [] s = (Inr (), s)"
| "execute_all env (q # qs) s =
     (case call (PgExecute q) (pg_execute env q) s of
        (Inl e, s1) \<Rightarrow> (Inl e, s1)
      | (Inr _, s1) \<Rightarrow> execute_all env qs s1)"

text \<open>
  The loop over the rows with its counter. The handler of the loop body catches
  \<open>psycopg.Error\<close> only and goes on with the next row; any other exception leaves the
  loop.
\<close>

fun insert_rows ::
  "('n, 'w) env \<Rightarrow> 'n frame \<Rightarrow> nat \<Rightarrow> ('n, 'w) state \<Rightarrow> (exn + nat) \<times> ('n, 'w) state" where
  "insert_rows env [] inserted_count s = (Inr inserted_count, s)"
| "insert_rows env (row # rows) inserted_count s =
     (case execute_all env (row_statements row) s of
        (Inr _, s1) \<Rightarrow> insert_rows env rows (inserted_count + 1) s1
      | (Inl e, s1) \<Rightarrow>
          if e = PsycopgError then insert_rows env rows inserted_count s1
          else (Inl e, s1))"

text \<open>The method returns nothing: the counter is dropped.\<close>

definition load_data_to_postgres ::
  "('n, 'w) env \<Rightarrow> 'n frame \<Rightarrow> ('n, 'w) state \<Rightarrow> (exn + unit) \<times> ('n, 'w) state" where
  "load_data_to_postgres env df s =
     (case call PgConnect (pg_connect env) s of
        (Inl e, s1) \<Rightarrow> (Inl (on_psycopg_error e), s1)
      | (Inr _, s1) \<Rightarrow>
          (case insert_rows env df 0 s1 of
             (Inl e, s2) \<Rightarrow>
               (case call (PgExit True) (pg_exit env True) s2 of
                  (_, s3) \<Rightarrow> (Inl (on_psycopg_error e), s3))
           | (Inr inserted_count, s2) \<Rightarrow>
               (case call PgCommit (pg_commit env) s2 of
                  (Inl e, s3) \<Rightarrow>
                    (case call (PgExit True) (pg_exit env True) s3 of
                       (_, s4) \<Rightarrow> (Inl (on_psycopg_error e), s4))
                | (Inr _, s3) \<Rightarrow>
                    (case call (PgExit False) (pg_exit env False) s3 of
                       (Inl e, s4) \<Rightarrow> (Inl (on_psycopg_error e), s4)
                     | (Inr _, s4) \<Rightarrow> (Inr (), s4)))))"

text \<open>The body of the \<open>try\<close> of \<open>start_workflow\<close>: exceptions still pass.\<close>

definition workflow_body ::
  "('n, 'w) env \<Rightarrow> data_injection \<Rightarrow> ustring \<Rightarrow> ('n, 'w) state \<Rightarrow>
     (exn + bool) \<times> ('n, 'w) state" where
  "workflow_body env self date s =
     (case check_date_exists env date s of
        (Inl e, s1) \<Rightarrow> (Inl e, s1)
      | (Inr exists, s1) \<Rightarrow>
          if exists then (Inr False, s1)
          else (case extract_data_from_minio env self date s1 of
                  (Inl e, s2) \<Rightarrow> (Inl e, s2)
                | (Inr df, s2) \<Rightarrow>
                    if df = [] then (Inr False, s2)
                    else (case load_data_to_postgres env df s2 of
                            (Inl e, s3) \<Rightarrow> (Inl e, s3)
                          | (Inr _, s3) \<Rightarrow> (Inr True, s3))))"

text \<open>
  The two handlers: \<open>except DataInjectionError\<close> and \<open>except Exception\<close>, both returning
  \<open>False\<close>.
\<close>

definition start_workflow ::
  "('n, 'w) env \<Rightarrow> data_injection \<Rightarrow> ustring \<Rightarrow> ('n, 'w) state \<Rightarrow>
     (exn + bool) \<times> ('n, 'w) state" where
  "start_workflow env self date s =
     (case workflow_body env self date s of
        (Inr b, s1) \<Rightarrow> (Inr b, s1)
      | (Inl e, s1) \<Rightarrow>
          if e = DataInjectionError then (Inr False, s1)
          else (Inr False, s1))"

section \<open>The tasks of \<open>src/dags/test_artefact/main.py\<close>\<close>



definition dag_extract_data_from_minio ::
  "('n, 'w) env \<Rightarrow> ustring \<Rightarrow> ustring \<Rightarrow> ustring \<Rightarrow> bool \<Rightarrow> ('n, 'w) state \<Rightarrow>
     (exn + 'n frame option) \<times> ('n, 'w) state" where
  "dag_extract_data_from_minio env bucket_name file_name date date_exists s =
     (if date_exists then (Inr None, s)
      else (case strptime (rt env) date of
              Inl e \<Rightarrow> (Inl e, s)
            | Inr dt \<Rightarrow>
                let formatted_date = strftime (rt env) dt in
                (case call (S3GetObject bucket_name file_name)
                        (s3_get_csv env bucket_name file_name) s of
                   (Inl e, s1) \<Rightarrow> (Inl DataInjectionError, s1)
                 | (Inr df, s1) \<Rightarrow>
                     let df_filtered =
                           drop_duplicates (filter (\<lambda>row. sale_date row = Str formatted_date) df)
                     in if df_filtered = [] then (Inr None, s1)
                        else (Inr (Some df_filtered), s1))))"

text \<open>The loop of the task: its handler catches every exception and goes on.\<close>

fun dag_insert_rows ::
  "('n, 'w) env \<Rightarrow> 'n frame \<Rightarrow> nat \<Rightarrow> ('n, 'w) state \<Rightarrow> nat \<times> ('n, 'w) state" where
  "dag_insert_rows env [] inserted_count s = (inserted_count, s)"
| "dag_insert_rows env (row # rows) inserted_count s =
     (case execute_all env (row_statements row) s of
        (Inr _, s1) \<Rightarrow> dag_insert_rows env rows (inserted_count + 1) s1
      | (Inl e, s1) \<Rightarrow> dag_insert_rows env rows inserted_count s1)"

text \<open>The dictionary the task returns, without its \<open>message\<close>.\<close>

record load_result =
  status :: string
  rows_inserted :: nat

definition dag_load_data_to_postgres ::
  "('n, 'w) env \<Rightarrow> 'n frame option \<Rightarrow> ('n, 'w) state \<Rightarrow>
     (exn + load_result) \<times> ('n, 'w) state" where
  "dag_load_data_to_postgres env data_json s =
     (case data_json of
        None \<Rightarrow> (Inr \<lparr>status = ''skipped'', rows_inserted = 0\<rparr>, s)
      | Some df \<Rightarrow>
          (case call PgConnect (pg_connect env) s of
             (Inl e, s1) \<Rightarrow> (Inl DataInjectionError, s1)
           | (Inr _, s1) \<Rightarrow>
               (case dag_insert_rows env df 0 s1 of
                  (inserted_count, s2) \<Rightarrow>
                    (case call PgCommit (pg_commit env) s2 of
                       (Inl e, s3) \<Rightarrow> (Inl DataInjectionError, s3)
                     | (Inr _, s3) \<Rightarrow>
                         (case call PgClose (pg_close env) s3 of
                            (Inl e, s4) \<Rightarrow> (Inl DataInjectionError, s4)
                          | (Inr _, s4) \<Rightarrow>
                              (Inr \<lparr>status = ''success'', rows_inserted = inserted_count\<rparr>,
                               s4))))))"


section \<open>Row outcomes\<close>

text \<open>
  The outcome of every row of a batch, each row attempted once and in order on the state
  its predecessors left: \<open>None\<close> when its four inserts completed, the exception
  otherwise. This is the structured account of a load that the specification speaks
  of; the loops above only keep a counter.
\<close>

fun row_outcomes :: "('n, 'w) env \<Rightarrow> 'n frame \<Rightarrow> ('n, 'w) state \<Rightarrow> exn option list" where
  "row_outcomes env [] s = []"
| "row_outcomes env (row # rows) s =
     (case execute_all env (row_statements row) s of
        (Inr _, s1) \<Rightarrow> None # row_outcomes env rows s1
      | (Inl e, s1) \<Rightarrow> Some e # row_outcomes env rows s1)"

text \<open>The statements a batch issues when row \<open>i\<close> issues the first \<open>ks ! i\<close> of its four.\<close>

definition issued :: "'n frame \<Rightarrow> nat list \<Rightarrow> 'n event list" where
  "issued rows ks =
     concat (map (\<lambda>(row, k). map PgExecute (take k (row_statements row))) (zip rows ks))"

section \<open>A relational store and an object store\<close>

text \<open>
  Modelled from the spec: the relational store and the object store, which are outside
  the repository. The store has the four tables \<open>client\<close>, \<open>product\<close>, \<open>sale\<close> and
  \<open>sale_product\<close>, each with its first column as primary key; \<open>sale.customer_id\<close> refers
  to \<open>client\<close>, \<open>sale_product.sale_id\<close> to \<open>sale\<close> and \<open>sale_product.product_id\<close> to
  \<open>product\<close>. An insert leaves the table alone when the key is present; it is an
  error when the key is missing from the row or a reference has no target.

  The transaction behaves as PostgreSQL's, which both modules reach through psycopg. A
  connection sees the committed tables and works on its own copy. A statement that
  fails puts the transaction in the aborted state, where every further statement
  fails; a commit in that state raises nothing and stores nothing.
\<close>

type_synonym 'n table = "'n cell list list"

record 'n tables =
  client :: "'n table"
  product :: "'n table"
  sale :: "'n table"
  sale_product :: "'n table"

datatype 'n txn = Idle | Active "'n tables" | Aborted

record 'n world =
  db_up :: bool
  committed :: "'n tables"
  session :: "'n txn"
  objects :: "((ustring \<times> ustring) \<times> 'n frame) list"

definition has_key :: "'n cell \<Rightarrow> 'n table \<Rightarrow> bool" where
  "has_key k t = list_ex (\<lambda>r. hd r = k) t"

definition insert_if_absent :: "'n cell list \<Rightarrow> 'n table \<Rightarrow> 'n table" where
  "insert_if_absent r t = (if has_key (hd r) t then t else t @ [r])"

definition apply_stmt :: "'n stmt \<Rightarrow> 'n tables \<Rightarrow> 'n tables option" where
  "apply_stmt q t =
     (case q of
        InsertClient r \<Rightarrow>
          if hd r = Null then None
          else Some (t\<lparr>client := insert_if_absent r (client t)\<rparr>)
      | InsertProduct r \<Rightarrow>
          if hd r = Null then None
          else Some (t\<lparr>product := insert_if_absent r (product t)\<rparr>)
      | InsertSale r \<Rightarrow>
          if hd r = Null then None
          else if has_key (hd r) (sale t) then Some t
          else if r ! 4 \<noteq> Null \<and> \<not> has_key (r ! 4) (client t) then None
          else Some (t\<lparr>sale := sale t @ [r]\<rparr>)
      | InsertSaleProduct r \<Rightarrow>
          if hd r = Null then None
          else if has_key (hd r) (sale_product t) then Some t
          else if r ! 1 \<noteq> Null \<and> \<not> has_key (r ! 1) (sale t) then None
          else if r ! 2 \<noteq> Null \<and> \<not> has_key (r ! 2) (product t) then None
          else Some (t\<lparr>sale_product := sale_product t @ [r]\<rparr>))"

definition store_connect :: "'n world \<Rightarrow> (exn + unit) \<times> 'n world" where
  "store_connect w =
     (if db_up w then (Inr (), w\<lparr>session := Active (committed w)\<rparr>)
      else (Inl PsycopgError, w))"

definition store_select_sale_exists :: "ustring \<Rightarrow> 'n world \<Rightarrow> (exn + bool) \<times> 'n world" where
  "store_select_sale_exists d w =
     (case session w of
        Idle \<Rightarrow> (Inl PsycopgError, w)
      | Aborted \<Rightarrow> (Inl PsycopgError, w)
      | Active t \<Rightarrow> (Inr (list_ex (\<lambda>r. r ! 1 = Str d) (sale t)), w))"

definition store_execute :: "'n stmt \<Rightarrow> 'n world \<Rightarrow> (exn + unit) \<times> 'n world" where
  "store_execute q w =
     (case session w of
        Idle \<Rightarrow> (Inl PsycopgError, w)
      | Aborted \<Rightarrow> (Inl PsycopgError, w)
      | Active t \<Rightarrow>
          (case apply_stmt q t of
             None \<Rightarrow> (Inl PsycopgError, w\<lparr>session := Aborted\<rparr>)
           | Some t' \<Rightarrow> (Inr (), w\<lparr>session := Active t'\<rparr>)))"

definition store_commit :: "'n world \<Rightarrow> (exn + unit) \<times> 'n world" where
  "store_commit w =
     (case session w of
        Idle \<Rightarrow> (Inl PsycopgError, w)
      | Aborted \<Rightarrow> (Inr (), w\<lparr>session := Active (committed w)\<rparr>)
      | Active t \<Rightarrow> (Inr (), w\<lparr>committed := t\<rparr>))"

definition store_exit :: "bool \<Rightarrow> 'n world \<Rightarrow> (exn + unit) \<times> 'n world" where
  "store_exit failing w =
     (case session w of
        Idle \<Rightarrow> (Inr (), w)
      | Aborted \<Rightarrow> (Inr (), w\<lparr>session := Idle\<rparr>)
      | Active t \<Rightarrow>
          if failing then (Inr (), w\<lparr>session := Idle\<rparr>)
          else (Inr (), w\<lparr>committed := t, session := Idle\<rparr>))"

definition store_close :: "'n world \<Rightarrow> (exn + unit) \<times> 'n world" where
  "store_close w = (Inr (), w\<lparr>session := Idle\<rparr>)"

definition store_get_csv :: "ustring \<Rightarrow> ustring \<Rightarrow> 'n world \<Rightarrow> (exn + 'n frame) \<times> 'n world" where
  "store_get_csv b k w =
     (case map_of (objects w) (b, k) of
        None \<Rightarrow> (Inl S3Error, w)
      | Some df \<Rightarrow> (Inr df, w))"

definition store_env :: "('n, 'n world) env" where
  "store_env =
     \<lparr>rt = sample_runtime,
      pg_connect = store_connect,
      pg_select_sale_exists = store_select_sale_exists,
      pg_execute = store_execute,
      pg_commit = store_commit,
      pg_exit = store_exit,
      pg_close = store_close,
      s3_get_csv = store_get_csv\<rparr>"

text \<open>
  The effect of consecutive statements on the tables of a transaction, up to the first
  error, and whether they all ran; and whether the key of a statement is in its table.
\<close>

fun apply_all :: "'n stmt list \<Rightarrow> 'n tables \<Rightarrow> bool \<times> 'n tables" where
  "apply_all [] t = (True, t)"
| "apply_all (q # qs) t =
     (case apply_stmt q t of None \<Rightarrow> (False, t) | Some t' \<Rightarrow> apply_all qs t')"

definition key_stored :: "'n stmt \<Rightarrow> 'n tables \<Rightarrow> bool" where
  "key_stored q t =
     (case q of
        InsertClient r \<Rightarrow> has_key (hd r) (client t)
      | InsertProduct r \<Rightarrow> has_key (hd r) (product t)
      | InsertSale r \<Rightarrow> has_key (hd r) (sale t)
      | InsertSaleProduct r \<Rightarrow> has_key (hd r) (sale_product t))"

text \<open>
  The rows of a batch on the tables of a transaction: how many rows complete before the
  first one that fails, and the tables when none fails.
\<close>

fun apply_rows :: "'n frame \<Rightarrow> 'n tables \<Rightarrow> nat \<times> 'n tables option" where
  "apply_rows [] t = (0, Some t)"
| "apply_rows (row # rows) t =
     (case apply_all (row_statements row) t of
        (True, t') \<Rightarrow> (case apply_rows rows t' of (n, r) \<Rightarrow> (Suc n, r))
      | (False, _) \<Rightarrow> (0, None))"

text \<open>Tables only get rows appended.\<close>

definition grows :: "'n tables \<Rightarrow> 'n tables \<Rightarrow> bool" where
  "grows t t' \<longleftrightarrow> prefix (client t) (client t') \<and> prefix (product t) (product t') \<and>
     prefix (sale t) (sale t') \<and> prefix (sale_product t) (sale_product t')"

text \<open>
  The four entities of a row are in the tables; and a row carries its four keys.
\<close>

definition row_stored :: "'n sale_record \<Rightarrow> 'n tables \<Rightarrow> bool" where
  "row_stored row t \<longleftrightarrow>
     has_key (customer_id row) (client t) \<and> has_key (product_id row) (product t) \<and>
     has_key (sale_id row) (sale t) \<and> has_key (item_id row) (sale_product t)"

definition has_keys :: "'n sale_record \<Rightarrow> bool" where
  "has_keys row \<longleftrightarrow>
     customer_id row \<noteq> Null \<and> product_id row \<noteq> Null \<and> sale_id row \<noteq> Null \<and>
     item_id row \<noteq> Null"

text \<open>
  How a row's sequence ended, against the number of its statements that were issued: at
  least the first one, and all four when nothing was raised.
\<close>

definition attempted :: "nat \<Rightarrow> exn option \<Rightarrow> bool" where
  "attempted k oc \<longleftrightarrow> 1 \<le> k \<and> k \<le> 4 \<and> (oc = None \<longrightarrow> k = 4)"

subsection \<open>Sample data\<close>

definition sample_row :: "nat sale_record" where
  "sample_row =
     \<lparr>customer_id = Num 1, first_name = Str (ascii ''Ada''), last_name = Str (ascii ''Lo''),
      email = Str (ascii ''ada@example.org''), country = Str (ascii ''FR''),
      signup_date = Str (ascii ''2022-01-10''), gender = Str (ascii ''F''),
      age_range = Str (ascii ''26-35''),
      product_id = Num 10, product_name = Str (ascii ''Scarf''), brand = Str (ascii ''Tiva''),
      category = Str (ascii ''Accessories''), cost_price = Num 12, color = Str (ascii ''Red''),
      size_col = Null, catalog_price = Num 30,
      sale_id = Num 100, sale_date = Str (ascii ''2023-06-15''),
      channel = Str (ascii ''App''), channel_campaigns = Null,
      item_id = Num 1000, quantity = Num 1, discount_applied = Num 0\<rparr>"

definition sample_self :: data_injection where
  "sample_self = \<lparr>bucket = ascii ''sales'', file_attr = ascii ''fashion_store_sales.csv''\<rparr>"

definition empty_tables :: "nat tables" where
  "empty_tables = \<lparr>client = [], product = [], sale = [], sale_product = []\<rparr>"

definition sample_world :: "nat tables \<Rightarrow> nat frame \<Rightarrow> nat world" where
  "sample_world t df =
     \<lparr>db_up = True, committed = t, session = Idle,
      objects = [((ascii ''sales'', ascii ''fashion_store_sales.csv''), df)]\<rparr>"

definition sample_date :: ustring where
  "sample_date = ascii ''20230615''"

text \<open>A row without product, a third row, and a row of the day before.\<close>

definition no_product_row :: "nat sale_record" where
  "no_product_row = sample_row\<lparr>product_id := Null, sale_id := Num 101, item_id := Num 1001\<rparr>"

definition third_row :: "nat sale_record" where
  "third_row = sample_row\<lparr>sale_id := Num 102, item_id := Num 1002\<rparr>"

definition earlier_row :: "nat sale_record" where
  "earlier_row =
     sample_row\<lparr>sale_id := Num 99, sale_date := Str (ascii ''2023-06-14''), item_id := Num 999\<rparr>"




text \<open>A run that starts on an empty store, and one whose server is down.\<close>

definition fresh :: "nat frame \<Rightarrow> (nat, nat world) state" where
  "fresh df = ([], sample_world empty_tables df)"

definition down :: "(nat, nat world) state" where
  "down = ([], (sample_world empty_tables [sample_row])\<lparr>db_up := False\<rparr>)"

text \<open>The same services with a server that refuses every commit.\<close>

definition failing_commit_env :: "(nat, nat world) env" where
  "failing_commit_env = store_env\<lparr>pg_commit := (\<lambda>w. (Inl PsycopgError, w))\<rparr>"


text \<open>The store as the first run on the sample row leaves it, before a second run.\<close>

definition loaded :: "(nat, nat world) state" where
  "loaded = ([], snd (snd (start_workflow store_env sample_self sample_date (fresh [sample_row]))))"


section \<open>The date validator\<close>

lemma length8_cases:
  assumes "length s = 8"
  obtains a b c d e f g h where "s = [a, b, c, d, e, f, g, h]"
proof -
  from assms obtain a s1 where 1: "s = a # s1" "length s1 = 7" by (cases s) auto
  then obtain b s2 where 2: "s1 = b # s2" "length s2 = 6" by (cases s1) auto
  then obtain c s3 where 3: "s2 = c # s3" "length s3 = 5" by (cases s2) auto
  then obtain d s4 where 4: "s3 = d # s4" "length s4 = 4" by (cases s3) auto
  then obtain e s5 where 5: "s4 = e # s5" "length s5 = 3" by (cases s4) auto
  then obtain f s6 where 6: "s5 = f # s6" "length s6 = 2" by (cases s5) auto
  then obtain g s7 where 7: "s6 = g # s7" "length s7 = 1" by (cases s6) auto
  then obtain h where 8: "s7 = [h]" by (cases s7) auto
  from 1 2 3 4 5 6 7 8 that show thesis by simp
qed

lemma decimal_cp_ascii: "ascii_digit c \<Longrightarrow> decimal_cp u c = Some (c - 48)"
  by (simp add: decimal_cp_def ascii_digit_def)

lemma py_int_ascii:
  assumes "s \<noteq> []" "list_all ascii_digit s"
  shows "py_int u s = Some (ascii_value s)"
proof -
  have nb: "dropWhile (\<lambda>c. c = 32) s = s"
    using assms by (cases s) (auto simp: ascii_digit_def)
  have dec: "list_all (\<lambda>c. decimal_cp u c \<noteq> None) s"
    using assms(2) by (induction s) (auto simp: decimal_cp_ascii)
  have fold: "foldl (\<lambda>acc c. 10 * acc + (case decimal_cp u c of Some v \<Rightarrow> v | None \<Rightarrow> 0)) a s
      = foldl (\<lambda>acc c. 10 * acc + (c - 48)) a s" for a
    using assms(2) by (induction s arbitrary: a) (auto simp: decimal_cp_ascii)
  show ?thesis
    using assms(1) nb dec fold by (simp add: py_int_def ascii_value_def)
qed

lemma re_m_ascii:
  assumes "ascii_digit e" "ascii_digit f"
  shows "re_m (e # f # r) =
     (if 1 \<le> 10 * (e - 48) + (f - 48) \<and> 10 * (e - 48) + (f - 48) \<le> 12 then [2] else []) @
     (if 49 \<le> e then [1] else [])"
proof -
  have e: "48 \<le> e" "e \<le> 57" and f: "48 \<le> f" "f \<le> 57"
    using assms by (simp_all add: ascii_digit_def)
  consider "e = 48" | "e = 49" | "50 \<le> e" using e by linarith
  then show ?thesis
  proof cases
    case 1 with f show ?thesis by (auto simp: re_m_def)
  next
    case 2 with f show ?thesis by (auto simp: re_m_def)
  next
    case 3 with e f show ?thesis by (auto simp: re_m_def)
  qed
qed

lemma re_d_ascii:
  assumes "ascii_digit g" "ascii_digit h"
  shows "re_d u (g # h # r) =
     (if 1 \<le> 10 * (g - 48) + (h - 48) \<and> 10 * (g - 48) + (h - 48) \<le> 31 then [2] else []) @
     (if 49 \<le> g then [1] else [])"
proof -
  have g: "48 \<le> g" "g \<le> 57" and h: "48 \<le> h" "h \<le> 57"
    using assms by (simp_all add: ascii_digit_def)
  have dh: "decimal_cp u h \<noteq> None" using assms(2) by (simp add: decimal_cp_ascii)
  consider "g = 48" | "g = 49" | "g = 50" | "g = 51" | "52 \<le> g" using g by linarith
  then show ?thesis
  proof cases
    case 1 with h dh show ?thesis by (auto simp: re_d_def)
  next
    case 2 with h dh show ?thesis by (auto simp: re_d_def)
  next
    case 3 with h dh show ?thesis by (auto simp: re_d_def)
  next
    case 4 with h dh show ?thesis by (auto simp: re_d_def)
  next
    case 5 with g h dh show ?thesis by (auto simp: re_d_def)
  qed
qed

lemma re_d_le2: "d \<in> set (re_d u s) \<Longrightarrow> d \<le> 2"
proof (cases s)
  case Nil then show "d \<in> set (re_d u s) \<Longrightarrow> d \<le> 2" by (simp add: re_d_def)
next
  case (Cons a t)
  then show "d \<in> set (re_d u s) \<Longrightarrow> d \<le> 2"
    by (cases t) (auto simp: re_d_def split: if_splits)
qed

lemma re_m_le2: "m \<in> set (re_m s) \<Longrightarrow> m \<le> 2"
proof (cases s)
  case Nil then show "m \<in> set (re_m s) \<Longrightarrow> m \<le> 2" by (simp add: re_m_def)
next
  case (Cons a t)
  then show "m \<in> set (re_m s) \<Longrightarrow> m \<le> 2"
    by (cases t) (auto simp: re_m_def split: if_splits)
qed


lemma strptime_no_full_match:
  assumes "\<And>Y m d. (Y, m, d) \<in> set (re_matches u s) \<Longrightarrow> length Y + length m + length d \<noteq> length s"
  shows "strptime u s = Inl ValueError"
proof (cases "re_matches u s")
  case Nil
  then show ?thesis by (simp add: strptime_def)
next
  case (Cons x xs)
  obtain Y m d where x: "x = (Y, m, d)" by (cases x)
  with Cons have "(Y, m, d) \<in> set (re_matches u s)" by simp
  from assms[OF this] show ?thesis using Cons x by (simp add: strptime_def)
qed

lemma days_in_month_le: "days_in_month y m \<le> 31"
  by (simp add: days_in_month_def)

lemma strptime_ascii:
  assumes len: "length s = 8" and dig: "list_all ascii_digit s"
  shows "strptime u s =
     (if valid_ymd (ascii_value (take 4 s)) (ascii_value (take 2 (drop 4 s))) (ascii_value (drop 6 s))
      then Inr \<lparr>year = ascii_value (take 4 s), month = ascii_value (take 2 (drop 4 s)),
                day = ascii_value (drop 6 s)\<rparr>
      else Inl ValueError)"
proof -
  from len obtain a b c d e f g h where s: "s = [a, b, c, d, e, f, g, h]"
    by (rule length8_cases)
  from dig s have ad: "ascii_digit a" "ascii_digit b" "ascii_digit c" "ascii_digit d"
      "ascii_digit e" "ascii_digit f" "ascii_digit g" "ascii_digit h"
    by simp_all
  define M where "M = 10 * (e - 48) + (f - 48)"
  define D where "D = 10 * (g - 48) + (h - 48)"
  define Y where "Y = ascii_value [a, b, c, d]"
  have vals: "ascii_value (take 4 s) = Y" "ascii_value (take 2 (drop 4 s)) = M"
      "ascii_value (drop 6 s) = D"
    by (simp_all add: s Y_def M_def D_def ascii_value_def)
  have reY: "re_Y u s = [4]"
    using ad by (simp add: s re_Y_def decimal_cp_ascii)
  have rem: "re_m (drop 4 s) = (if 1 \<le> M \<and> M \<le> 12 then [2] else []) @ (if 49 \<le> e then [1] else [])"
    unfolding M_def using re_m_ascii[OF ad(5) ad(6)] by (simp add: s)
  have red: "re_d u (drop 6 s) = (if 1 \<le> D \<and> D \<le> 31 then [2] else []) @ (if 49 \<le> g then [1] else [])"
    unfolding D_def using re_d_ascii[OF ad(7) ad(8)] by (simp add: s)
  have ints: "py_int u [a, b, c, d] = Some Y" "py_int u [e, f] = Some M" "py_int u [g, h] = Some D"
    using ad by (simp_all add: py_int_ascii Y_def M_def D_def ascii_value_def)
  show ?thesis
  proof (cases "1 \<le> M \<and> M \<le> 12 \<and> 1 \<le> D \<and> D \<le> 31")
    case True
    then have "\<exists>rest. re_matches u s = ([a, b, c, d], [e, f], [g, h]) # rest"
      using rem red by (simp add: re_matches_def reY) (simp add: s)
    then obtain rest where "re_matches u s = ([a, b, c, d], [e, f], [g, h]) # rest" ..
    then show ?thesis
      by (simp add: strptime_def ints vals) (simp add: s)
  next
    case False
    have nv: "\<not> valid_ymd Y M D"
      using False days_in_month_le[of Y M] by (auto simp: valid_ymd_def)
    have "strptime u s = Inl ValueError"
    proof (rule strptime_no_full_match)
      fix Y' m' d' assume "(Y', m', d') \<in> set (re_matches u s)"
      then obtain m d where md: "m \<in> set (re_m (drop 4 s))" "d \<in> set (re_d u (drop (4 + m) s))"
          and eq: "Y' = take 4 s" "m' = take m (drop 4 s)" "d' = take d (drop (4 + m) s)"
        by (auto simp: re_matches_def reY)
      have d2: "d \<le> 2" using md(2) by (rule re_d_le2)
      have "m = 1 \<or> (m = 2 \<and> 1 \<le> M \<and> M \<le> 12)"
        using md(1) rem by (auto split: if_splits)
      then show "length Y' + length m' + length d' \<noteq> length s"
      proof
        assume "m = 1"
        then show ?thesis using d2 eq by (simp add: s)
      next
        assume m2: "m = 2 \<and> 1 \<le> M \<and> M \<le> 12"
        then have "d \<in> set (re_d u (drop 6 s))" using md(2) by simp
        then have "d = 1" using red False m2 by (auto split: if_splits)
        then show ?thesis using m2 eq by (simp add: s)
      qed
    qed
    then show ?thesis using nv by (simp add: vals)
  qed
qed

lemma isdigit_ascii: "s \<noteq> [] \<Longrightarrow> list_all ascii_digit s \<Longrightarrow> isdigit u s"
  by (auto simp: isdigit_def isdigit_cp_def list_all_iff ascii_digit_def)

lemma strptime_error: "strptime u s = Inl e \<Longrightarrow> e = ValueError"
  by (auto simp: strptime_def split: list.splits prod.splits if_splits option.splits)

lemma validate_date_ascii:
  assumes "list_all ascii_digit s"
  shows "validate_date u s = Inr (real_calendar_date s)"
proof (cases "length s = 8")
  case True
  then have "s \<noteq> []" by auto
  then have "isdigit u s" using assms by (rule isdigit_ascii)
  then show ?thesis
    using True assms by (simp add: validate_date_def strptime_ascii real_calendar_date_def)
next
  case False
  then show ?thesis by (simp add: validate_date_def real_calendar_date_def)
qed

lemma strptime_valid:
  "strptime u s = Inr dt \<Longrightarrow> valid_ymd (year dt) (month dt) (day dt)"
  by (auto simp: strptime_def split: list.splits prod.splits if_splits option.splits)

text \<open>
  Claim C8, as the code has it. \<open>validate_date\<close> never raises. It returns true only for a
  string of eight characters that are digits for \<open>str.isdigit\<close> and that the parser reads
  as a date of the calendar, and on a string of ASCII digits it returns true exactly
  when the string is a real calendar date in \<open>YYYYMMDD\<close> form (years 0001 to 9999).
  Digits outside ASCII are not refused.
\<close>

theorem validate_date_checks:
  "(\<exists>b. validate_date u s = Inr b) \<and>
   (validate_date u s = Inr True \<longrightarrow>
      length s = 8 \<and> isdigit u s \<and>
      (\<exists>dt. strptime u s = Inr dt \<and> valid_ymd (year dt) (month dt) (day dt))) \<and>
   (list_all ascii_digit s \<longrightarrow> validate_date u s = Inr (real_calendar_date s))"
proof (intro conjI impI)
  show "\<exists>b. validate_date u s = Inr b"
    by (auto simp: validate_date_def split: sum.splits dest: strptime_error)
next
  assume t: "validate_date u s = Inr True"
  then show "length s = 8" by (auto simp: validate_date_def split: if_splits)
  from t show "isdigit u s" by (auto simp: validate_date_def split: if_splits)
  from t obtain dt where "strptime u s = Inr dt"
    by (auto simp: validate_date_def split: if_splits sum.splits)
  then show "\<exists>dt. strptime u s = Inr dt \<and> valid_ymd (year dt) (month dt) (day dt)"
    by (auto dest: strptime_valid)
next
  assume "list_all ascii_digit s"
  then show "validate_date u s = Inr (real_calendar_date s)" by (rule validate_date_ascii)
qed

theorem validate_date_checks_witness:
  "list_all ascii_digit (ascii ''20230615'') \<and>
   validate_date sample_runtime (ascii ''20230615'') = Inr True \<and>
   length (ascii ''20230615'') = 8 \<and>
   real_calendar_date (ascii ''20230615'') \<and>
   validate_date sample_runtime (ascii ''20230230'') = Inr False"
proof -
  have a: "list_all ascii_digit (ascii ''20230615'')" by code_simp
  have r: "real_calendar_date (ascii ''20230615'')" by code_simp
  have b: "list_all ascii_digit (ascii ''20230230'')" by code_simp
  have n: "\<not> real_calendar_date (ascii ''20230230'')" by code_simp
  from validate_date_checks[of sample_runtime "ascii ''20230615''"]
       validate_date_checks[of sample_runtime "ascii ''20230230''"] a r b n
  show ?thesis by simp
qed

text \<open>
  Claim C8 as stated fails: the string \<open>2023061\<close> followed by the Arabic-Indic digit
  five (U+0665) is not made of ASCII digits, and it is accepted.
\<close>

theorem validate_date_non_ascii_counterexample:
  "validate_date sample_runtime (ascii ''2023061'' @ [1637]) = Inr True \<and>
   \<not> list_all ascii_digit (ascii ''2023061'' @ [1637]) \<and>
   \<not> real_calendar_date (ascii ''2023061'' @ [1637])"
  by code_simp

section \<open>The extract filter\<close>




lemma drop_duplicates_distinct: "distinct xs \<Longrightarrow> drop_duplicates xs = xs"
proof (induction xs)
  case Nil show ?case by simp
next
  case (Cons x xs)
  then have "filter (\<lambda>y. y \<noteq> x) xs = xs" by (auto simp: filter_id_conv)
  with Cons show ?case by simp
qed






lemma call_result:
  "call ev f s = (case f (snd s) of (r, w) \<Rightarrow> (r, (fst s @ [ev], w)))"
  by (simp add: call_def)

lemma call_trace: "call ev f s = (r, s') \<Longrightarrow> fst s' = fst s @ [ev]"
  by (auto simp: call_def split: prod.splits)




section \<open>The orchestrator\<close>

lemma call_cases:
  obtains (raise) e w where "f (snd s) = (Inl e, w)" "call ev f s = (Inl e, (fst s @ [ev], w))"
        | (return) x w where "f (snd s) = (Inr x, w)" "call ev f s = (Inr x, (fst s @ [ev], w))"
proof (cases "f (snd s)")
  case (Pair r w)
  then show thesis
    by (cases r) (auto simp: call_def intro: raise return)
qed

lemma check_date_exists_events:
  assumes "check_date_exists env date s = (c, s1)"
  shows "\<exists>es. fst s1 = fst s @ es \<and>
           set es \<subseteq> {PgConnect, PgExit True, PgExit False} \<union> range PgSelectSaleExists \<and>
           (\<forall>b. c = Inr b \<longrightarrow>
              (\<exists>fd. es = [PgConnect, PgSelectSaleExists fd, PgExit False]))"
proof (cases "strptime (rt env) date")
  case (Inl e)
  with assms show ?thesis by (auto simp: check_date_exists_def)
next
  case (Inr dt)
  define fd where "fd = strftime (rt env) dt"
  show ?thesis
  proof (cases rule: call_cases[of "pg_connect env" s PgConnect])
    case (raise e w)
    with assms Inr show ?thesis by (auto simp: check_date_exists_def)
  next
    case (return x w)
    note c1 = this
    define s1' where "s1' = (fst s @ [PgConnect], w)"
    show ?thesis
    proof (cases rule: call_cases[of "pg_select_sale_exists env fd" s1' "PgSelectSaleExists fd"])
      case (raise e w2)
      then show ?thesis using assms Inr c1
        by (cases rule: call_cases[of "pg_exit env True" "(fst s1' @ [PgSelectSaleExists fd], w2)" "PgExit True"])
           (auto simp: check_date_exists_def fd_def s1'_def)
    next
      case (return b w2)
      then show ?thesis using assms Inr c1
        by (cases rule: call_cases[of "pg_exit env False" "(fst s1' @ [PgSelectSaleExists fd], w2)" "PgExit False"])
           (auto simp: check_date_exists_def fd_def s1'_def)
    qed
  qed
qed

lemma start_workflow_total: "\<exists>b s'. start_workflow env self date s = (Inr b, s')"
  by (auto simp: start_workflow_def split: prod.splits sum.splits)

lemma start_workflow_body:
  "start_workflow env self date s =
     (case workflow_body env self date s of
        (Inr b, s1) \<Rightarrow> (Inr b, s1) | (Inl e, s1) \<Rightarrow> (Inr False, s1))"
  by (auto simp: start_workflow_def split: prod.splits sum.splits)

lemma workflow_check_raises:
  "check_date_exists env date s = (Inl e, s1) \<Longrightarrow> start_workflow env self date s = (Inr False, s1)"
  by (simp add: start_workflow_body workflow_body_def)

lemma workflow_exists:
  "check_date_exists env date s = (Inr True, s1) \<Longrightarrow> start_workflow env self date s = (Inr False, s1)"
  by (simp add: start_workflow_body workflow_body_def)

lemma workflow_extract_raises:
  "check_date_exists env date s = (Inr False, s1) \<Longrightarrow>
   extract_data_from_minio env self date s1 = (Inl e, s2) \<Longrightarrow>
   start_workflow env self date s = (Inr False, s2)"
  by (simp add: start_workflow_body workflow_body_def)

lemma workflow_no_data:
  "check_date_exists env date s = (Inr False, s1) \<Longrightarrow>
   extract_data_from_minio env self date s1 = (Inr [], s2) \<Longrightarrow>
   start_workflow env self date s = (Inr False, s2)"
  by (simp add: start_workflow_body workflow_body_def)

lemma workflow_load_raises:
  "check_date_exists env date s = (Inr False, s1) \<Longrightarrow>
   extract_data_from_minio env self date s1 = (Inr df, s2) \<Longrightarrow> df \<noteq> [] \<Longrightarrow>
   load_data_to_postgres env df s2 = (Inl e, s3) \<Longrightarrow>
   start_workflow env self date s = (Inr False, s3)"
  by (simp add: start_workflow_body workflow_body_def)

lemma workflow_completed:
  "check_date_exists env date s = (Inr False, s1) \<Longrightarrow>
   extract_data_from_minio env self date s1 = (Inr df, s2) \<Longrightarrow> df \<noteq> [] \<Longrightarrow>
   load_data_to_postgres env df s2 = (Inr u, s3) \<Longrightarrow>
   start_workflow env self date s = (Inr True, s3)"
  by (simp add: start_workflow_body workflow_body_def)

lemma workflow_true_only:
  assumes "start_workflow env self date s = (Inr True, s')"
  shows "\<exists>s1 df s2. check_date_exists env date s = (Inr False, s1) \<and>
           extract_data_from_minio env self date s1 = (Inr df, s2) \<and> df \<noteq> [] \<and>
           load_data_to_postgres env df s2 = (Inr (), s')"
  using assms
  by (auto simp: start_workflow_body workflow_body_def split: prod.splits sum.splits if_splits)

lemma strptime_rejected:
  "strptime (rt env) date = Inl e \<Longrightarrow> check_date_exists env date s = (Inl e, s)"
  by (simp add: check_date_exists_def)

section \<open>The row loop\<close>

lemma execute_all_trace:
  "execute_all env qs s = (r, s') \<Longrightarrow>
   \<exists>k\<le>length qs. fst s' = fst s @ map PgExecute (take k qs) \<and> (r = Inr () \<longrightarrow> k = length qs)"
proof (induction qs arbitrary: s)
  case Nil
  then show ?case by auto
next
  case (Cons q qs)
  show ?case
  proof (cases rule: call_cases[of "pg_execute env q" s "PgExecute q"])
    case (raise e w)
    with Cons.prems have "r = Inl e" "s' = (fst s @ [PgExecute q], w)" by auto
    then have "fst s' = fst s @ map PgExecute (take 1 (q # qs))" by simp
    with \<open>r = Inl e\<close> show ?thesis by (intro exI[of _ 1]) auto
  next
    case (return x w)
    with Cons.prems have "execute_all env qs (fst s @ [PgExecute q], w) = (r, s')" by auto
    from Cons.IH[OF this] obtain k where k: "k \<le> length qs"
        "fst s' = (fst s @ [PgExecute q]) @ map PgExecute (take k qs)"
        "r = Inr () \<longrightarrow> k = length qs"
      by auto
    then show ?thesis by (intro exI[of _ "Suc k"]) auto
  qed
qed

lemma issued_Nil [simp]: "issued [] ks = []"
  by (simp add: issued_def)

lemma issued_Cons [simp]:
  "issued (row # rows) (k # ks) = map PgExecute (take k (row_statements row)) @ issued rows ks"
  by (simp add: issued_def)

lemma issued_zeros [simp]: "issued rows (replicate (length rows) 0) = []"
  by (induction rows) auto

lemma length_row_statements [simp]: "length (row_statements row) = 4"
  by (simp add: row_statements_def)

lemma insert_rows_trace:
  "insert_rows env rows n s = (r, s') \<Longrightarrow>
   \<exists>ks. length ks = length rows \<and> fst s' = fst s @ issued rows ks"
proof (induction rows arbitrary: n s)
  case Nil
  then show ?case by auto
next
  case (Cons row rows)
  obtain r1 s1 where e: "execute_all env (row_statements row) s = (r1, s1)"
    by (cases "execute_all env (row_statements row) s")
  from execute_all_trace[OF e] obtain k where
    k: "fst s1 = fst s @ map PgExecute (take k (row_statements row))" by auto
  show ?case
  proof (cases "r1 = Inl PsycopgError \<or> (\<exists>u. r1 = Inr u)")
    case True
    with e Cons.prems obtain n' where "insert_rows env rows n' s1 = (r, s')" by auto
    from Cons.IH[OF this] obtain ks where "length ks = length rows" "fst s' = fst s1 @ issued rows ks"
      by auto
    with k show ?thesis by (intro exI[of _ "k # ks"]) auto
  next
    case False
    then obtain ex where "r1 = Inl ex" "ex \<noteq> PsycopgError" by (cases r1) auto
    with e Cons.prems have "s' = s1" by simp
    with k show ?thesis by (intro exI[of _ "k # replicate (length rows) 0"]) auto
  qed
qed

lemma dag_insert_rows_trace:
  "dag_insert_rows env rows n s = (m, s') \<Longrightarrow>
   \<exists>ks. length ks = length rows \<and> fst s' = fst s @ issued rows ks"
proof (induction rows arbitrary: n s)
  case Nil
  then show ?case by auto
next
  case (Cons row rows)
  obtain r1 s1 where e: "execute_all env (row_statements row) s = (r1, s1)"
    by (cases "execute_all env (row_statements row) s")
  from execute_all_trace[OF e] obtain k where
    k: "fst s1 = fst s @ map PgExecute (take k (row_statements row))" by auto
  from e Cons.prems obtain n' where "dag_insert_rows env rows n' s1 = (m, s')"
    by (cases r1) auto
  from Cons.IH[OF this] obtain ks where "length ks = length rows" "fst s' = fst s1 @ issued rows ks"
    by auto
  with k show ?case by (intro exI[of _ "k # ks"]) auto
qed

lemma length_row_outcomes [simp]: "length (row_outcomes env rows s) = length rows"
  by (induction rows arbitrary: s) (auto split: prod.splits sum.splits)


lemma insert_rows_storage_errors:
  "set (row_outcomes env rows s) \<subseteq> {None, Some PsycopgError} \<Longrightarrow>
   insert_rows env rows n s =
     (Inr (fst (dag_insert_rows env rows n s)), snd (dag_insert_rows env rows n s))"
proof (induction rows arbitrary: n s)
  case Nil
  then show ?case by simp
next
  case (Cons row rows)
  obtain r1 s1 where e: "execute_all env (row_statements row) s = (r1, s1)"
    by (cases "execute_all env (row_statements row) s")
  show ?case
  proof (cases r1)
    case (Inl ex)
    with e Cons.prems have ex: "ex = PsycopgError"
      and rest: "set (row_outcomes env rows s1) \<subseteq> {None, Some PsycopgError}" by auto
    from Cons.IH[OF rest] show ?thesis using e Inl ex by simp
  next
    case (Inr u)
    with e Cons.prems have rest: "set (row_outcomes env rows s1) \<subseteq> {None, Some PsycopgError}"
      by auto
    from Cons.IH[OF rest] show ?thesis using e Inr by simp
  qed
qed


section \<open>Claims about the workflow\<close>


text \<open>
  Claim C7. \<open>start_workflow\<close> always returns a boolean: whatever exception the duplicate
  check, the extraction or the load raises, the result is \<open>False\<close> and no exception
  leaves the method.
\<close>

theorem start_workflow_returns:
  "(\<exists>b s'. start_workflow env self date s = (Inr b, s')) \<and>
   (check_date_exists env date s = (Inl e, s1) \<longrightarrow>
      start_workflow env self date s = (Inr False, s1)) \<and>
   (check_date_exists env date s = (Inr False, s1) \<and>
    extract_data_from_minio env self date s1 = (Inl e, s2) \<longrightarrow>
      start_workflow env self date s = (Inr False, s2)) \<and>
   (check_date_exists env date s = (Inr False, s1) \<and>
    extract_data_from_minio env self date s1 = (Inr df, s2) \<and> df \<noteq> [] \<and>
    load_data_to_postgres env df s2 = (Inl e, s3) \<longrightarrow>
      start_workflow env self date s = (Inr False, s3))"
  using start_workflow_total[of env self date s]
  by (auto intro: workflow_check_raises workflow_extract_raises workflow_load_raises)

theorem start_workflow_returns_witness:
  "(\<exists>s1. check_date_exists store_env sample_date down = (Inl DataInjectionError, s1) \<and>
      start_workflow store_env sample_self sample_date down = (Inr False, s1)) \<and>
   (\<exists>s1 s2. check_date_exists store_env sample_date (fresh []) = (Inr False, s1) \<and>
      extract_data_from_minio store_env \<lparr>bucket = ascii ''sales'', file_attr = ascii ''missing.csv''\<rparr>
         sample_date s1 = (Inl DataInjectionError, s2) \<and>
      start_workflow store_env \<lparr>bucket = ascii ''sales'', file_attr = ascii ''missing.csv''\<rparr>
         sample_date (fresh []) = (Inr False, s2)) \<and>
   (\<exists>s1 s2 s3. check_date_exists failing_commit_env sample_date (fresh [sample_row]) = (Inr False, s1) \<and>
      extract_data_from_minio failing_commit_env sample_self sample_date s1 = (Inr [sample_row], s2) \<and>
      load_data_to_postgres failing_commit_env [sample_row] s2 = (Inl DataInjectionError, s3) \<and>
      start_workflow failing_commit_env sample_self sample_date (fresh [sample_row]) = (Inr False, s3))"
proof (intro conjI)
  let ?miss = "\<lparr>bucket = ascii ''sales'', file_attr = ascii ''missing.csv''\<rparr>"
  obtain s1 where c: "check_date_exists store_env sample_date down = (Inl DataInjectionError, s1)"
  proof -
    have "fst (check_date_exists store_env sample_date down) = Inl DataInjectionError" by code_simp
    then show thesis using that by (cases "check_date_exists store_env sample_date down") auto
  qed
  with start_workflow_returns[where env = store_env and self = sample_self and date = sample_date
      and s = down and e = DataInjectionError and ?s1.0 = s1]
  show "\<exists>s1. check_date_exists store_env sample_date down = (Inl DataInjectionError, s1) \<and>
      start_workflow store_env sample_self sample_date down = (Inr False, s1)" by blast
next
  let ?miss = "\<lparr>bucket = ascii ''sales'', file_attr = ascii ''missing.csv''\<rparr>"
  obtain s1 where c: "check_date_exists store_env sample_date (fresh []) = (Inr False, s1)"
    and s1: "s1 = snd (check_date_exists store_env sample_date (fresh []))"
  proof -
    have "fst (check_date_exists store_env sample_date (fresh [])) = Inr False" by code_simp
    then show thesis using that by (cases "check_date_exists store_env sample_date (fresh [])") auto
  qed
  obtain s2 where x: "extract_data_from_minio store_env ?miss sample_date s1 = (Inl DataInjectionError, s2)"
  proof -
    have "fst (extract_data_from_minio store_env ?miss sample_date
            (snd (check_date_exists store_env sample_date (fresh [])))) = Inl DataInjectionError"
      by code_simp
    then show thesis using that s1
      by (cases "extract_data_from_minio store_env ?miss sample_date s1") auto
  qed
  from c x start_workflow_returns[where env = store_env and self = ?miss and date = sample_date
      and s = "fresh []" and e = DataInjectionError and ?s1.0 = s1 and ?s2.0 = s2]
  show "\<exists>s1 s2. check_date_exists store_env sample_date (fresh []) = (Inr False, s1) \<and>
      extract_data_from_minio store_env ?miss sample_date s1 = (Inl DataInjectionError, s2) \<and>
      start_workflow store_env ?miss sample_date (fresh []) = (Inr False, s2)" by blast
next
  let ?env = failing_commit_env
  let ?s = "fresh [sample_row]"
  obtain s1 where c: "check_date_exists ?env sample_date ?s = (Inr False, s1)"
    and s1: "s1 = snd (check_date_exists ?env sample_date ?s)"
  proof -
    have "fst (check_date_exists ?env sample_date ?s) = Inr False" by code_simp
    then show thesis using that by (cases "check_date_exists ?env sample_date ?s") auto
  qed
  obtain s2 where x: "extract_data_from_minio ?env sample_self sample_date s1 = (Inr [sample_row], s2)"
    and s2: "s2 = snd (extract_data_from_minio ?env sample_self sample_date s1)"
  proof -
    have "fst (extract_data_from_minio ?env sample_self sample_date
            (snd (check_date_exists ?env sample_date ?s))) = Inr [sample_row]"
      by code_simp
    then show thesis using that s1
      by (cases "extract_data_from_minio ?env sample_self sample_date s1") auto
  qed
  obtain s3 where l: "load_data_to_postgres ?env [sample_row] s2 = (Inl DataInjectionError, s3)"
  proof -
    have "fst (load_data_to_postgres ?env [sample_row]
            (snd (extract_data_from_minio ?env sample_self sample_date
               (snd (check_date_exists ?env sample_date ?s))))) = Inl DataInjectionError"
      by code_simp
    then show thesis using that s1 s2
      by (cases "load_data_to_postgres ?env [sample_row] s2") auto
  qed
  have ne: "[sample_row] \<noteq> []" by simp
  from c x l ne
    start_workflow_returns[where env = ?env and self = sample_self and date = sample_date
      and s = ?s and e = DataInjectionError and ?s1.0 = s1 and ?s2.0 = s2 and df = "[sample_row]"
      and ?s3.0 = s3]
  show "\<exists>s1 s2 s3. check_date_exists ?env sample_date ?s = (Inr False, s1) \<and>
      extract_data_from_minio ?env sample_self sample_date s1 = (Inr [sample_row], s2) \<and>
      load_data_to_postgres ?env [sample_row] s2 = (Inl DataInjectionError, s3) \<and>
      start_workflow ?env sample_self sample_date ?s = (Inr False, s3)" by blast
qed

lemma call_prefix: "call ev f s = (r, s') \<Longrightarrow> prefix (fst s) (fst s')"
  by (drule call_trace) simp

lemma insert_rows_prefix: "insert_rows env rows n s = (r, s') \<Longrightarrow> prefix (fst s) (fst s')"
  by (drule insert_rows_trace) auto

lemma extract_prefix:
  assumes "extract_data_from_minio env self date s = (x, s2)"
  shows "prefix (fst s) (fst s2)"
proof (cases "strptime (rt env) date")
  case (Inl e)
  with assms show ?thesis by (simp add: extract_data_from_minio_def)
next
  case (Inr dt)
  obtain r1 s1 where c: "call (S3GetObject (bucket self) (file_attr self))
      (s3_get_csv env (bucket self) (file_attr self)) s = (r1, s1)"
    by (cases "call (S3GetObject (bucket self) (file_attr self))
      (s3_get_csv env (bucket self) (file_attr self)) s")
  from assms Inr c have "s2 = s1"
    by (cases r1) (simp_all add: extract_data_from_minio_def Let_def)
  with call_prefix[OF c] show ?thesis by simp
qed

lemma load_prefix:
  assumes "load_data_to_postgres env df s = (l, s')"
  shows "prefix (fst s) (fst s')"
proof -
  obtain r1 s1 where c1: "call PgConnect (pg_connect env) s = (r1, s1)"
    by (cases "call PgConnect (pg_connect env) s")
  note p1 = call_prefix[OF c1]
  show ?thesis
  proof (cases r1)
    case (Inl e)
    with assms c1 have "s' = s1" by (simp add: load_data_to_postgres_def)
    with p1 show ?thesis by simp
  next
    case (Inr u)
    obtain r2 s2 where c2: "insert_rows env df 0 s1 = (r2, s2)"
      by (cases "insert_rows env df 0 s1")
    have p2: "prefix (fst s) (fst s2)" using p1 insert_rows_prefix[OF c2] by (rule prefix_order.trans)
    show ?thesis
    proof (cases r2)
      case (Inl e)
      obtain r3 s3 where c3: "call (PgExit True) (pg_exit env True) s2 = (r3, s3)"
        by (cases "call (PgExit True) (pg_exit env True) s2")
      with assms c1 Inr c2 Inl have "s' = s3" by (simp add: load_data_to_postgres_def)
      with p2 call_prefix[OF c3] show ?thesis by (auto intro: prefix_order.trans)
    next
      case ok: (Inr n)
      obtain r3 s3 where c3: "call PgCommit (pg_commit env) s2 = (r3, s3)"
        by (cases "call PgCommit (pg_commit env) s2")
      have p3: "prefix (fst s) (fst s3)" using p2 call_prefix[OF c3] by (rule prefix_order.trans)
      show ?thesis
      proof (cases r3)
        case (Inl e)
        obtain r4 s4 where c4: "call (PgExit True) (pg_exit env True) s3 = (r4, s4)"
          by (cases "call (PgExit True) (pg_exit env True) s3")
        with assms c1 Inr c2 ok c3 Inl have "s' = s4" by (simp add: load_data_to_postgres_def)
        with p3 call_prefix[OF c4] show ?thesis by (auto intro: prefix_order.trans)
      next
        case fin: (Inr v)
        obtain r4 s4 where c4: "call (PgExit False) (pg_exit env False) s3 = (r4, s4)"
          by (cases "call (PgExit False) (pg_exit env False) s3")
        with assms c1 Inr c2 ok c3 fin have "s' = s4"
          by (cases r4) (simp_all add: load_data_to_postgres_def)
        with p3 call_prefix[OF c4] show ?thesis by (auto intro: prefix_order.trans)
      qed
    qed
  qed
qed

lemma workflow_after_check:
  assumes sw: "start_workflow env self date s = (r, s')"
    and c: "check_date_exists env date s = (c, s1)"
  shows "prefix (fst s1) (fst s')" and "c \<noteq> Inr False \<Longrightarrow> s' = s1 \<and> r = Inr False"
proof -
  show "c \<noteq> Inr False \<Longrightarrow> s' = s1 \<and> r = Inr False"
    using sw c by (cases c) (auto simp: start_workflow_body workflow_body_def)
  show "prefix (fst s1) (fst s')"
  proof (cases "c = Inr False")
    case False
    then have "s' = s1" using sw c by (cases c) (auto simp: start_workflow_body workflow_body_def)
    then show ?thesis by simp
  next
    case True
    obtain x s2 where x: "extract_data_from_minio env self date s1 = (x, s2)"
      by (cases "extract_data_from_minio env self date s1")
    note p2 = extract_prefix[OF x]
    show ?thesis
    proof (cases "\<exists>df. x = Inr df \<and> df \<noteq> []")
      case False
      then have "s' = s2"
        using c True x sw by (cases x) (auto simp: start_workflow_body workflow_body_def)
      with p2 show ?thesis by simp
    next
      case yes: True
      then obtain df where df: "x = Inr df" "df \<noteq> []" by blast
      obtain l s3 where l: "load_data_to_postgres env df s2 = (l, s3)"
        by (cases "load_data_to_postgres env df s2")
      then have "s' = s3"
        using c True x df sw by (cases l) (auto simp: start_workflow_body workflow_body_def)
      with p2 load_prefix[OF l] show ?thesis by (auto intro: prefix_order.trans)
    qed
  qed
qed

text \<open>
  Claim C10. \<open>start_workflow\<close> returns \<open>True\<close> exactly when the duplicate check found
  nothing, the extract was not empty and the load returned; in every other case it
  returns \<open>False\<close>: a date that does not parse, data already present, no data, or an
  exception of a step. The caller cannot tell a skip from a failure.
\<close>

theorem start_workflow_true_iff:
  "(fst (start_workflow env self date s) = Inr True \<or>
    fst (start_workflow env self date s) = Inr False) \<and>
   (fst (start_workflow env self date s) = Inr True \<longleftrightarrow>
      (\<exists>s1 df s2 s3. check_date_exists env date s = (Inr False, s1) \<and>
         extract_data_from_minio env self date s1 = (Inr df, s2) \<and> df \<noteq> [] \<and>
         load_data_to_postgres env df s2 = (Inr (), s3))) \<and>
   (strptime (rt env) date = Inl e \<longrightarrow> start_workflow env self date s = (Inr False, s)) \<and>
   (check_date_exists env date s = (Inr True, s1) \<longrightarrow>
      start_workflow env self date s = (Inr False, s1)) \<and>
   (check_date_exists env date s = (Inr False, s1) \<and>
    extract_data_from_minio env self date s1 = (Inr [], s2) \<longrightarrow>
      start_workflow env self date s = (Inr False, s2)) \<and>
   (workflow_body env self date s = (Inl e, s3) \<longrightarrow>
      start_workflow env self date s = (Inr False, s3))"
proof (intro conjI impI)
  from start_workflow_total[of env self date s]
  show "fst (start_workflow env self date s) = Inr True \<or>
        fst (start_workflow env self date s) = Inr False" by auto
next
  show "fst (start_workflow env self date s) = Inr True \<longleftrightarrow>
      (\<exists>s1 df s2 s3. check_date_exists env date s = (Inr False, s1) \<and>
         extract_data_from_minio env self date s1 = (Inr df, s2) \<and> df \<noteq> [] \<and>
         load_data_to_postgres env df s2 = (Inr (), s3))"
  proof
    assume "fst (start_workflow env self date s) = Inr True"
    then obtain s' where "start_workflow env self date s = (Inr True, s')"
      by (cases "start_workflow env self date s") auto
    from workflow_true_only[OF this] show "\<exists>s1 df s2 s3.
         check_date_exists env date s = (Inr False, s1) \<and>
         extract_data_from_minio env self date s1 = (Inr df, s2) \<and> df \<noteq> [] \<and>
         load_data_to_postgres env df s2 = (Inr (), s3)" by blast
  next
    assume "\<exists>s1 df s2 s3. check_date_exists env date s = (Inr False, s1) \<and>
         extract_data_from_minio env self date s1 = (Inr df, s2) \<and> df \<noteq> [] \<and>
         load_data_to_postgres env df s2 = (Inr (), s3)"
    then show "fst (start_workflow env self date s) = Inr True"
      by (auto dest: workflow_completed)
  qed
next
  assume "strptime (rt env) date = Inl e"
  then have "check_date_exists env date s = (Inl e, s)" by (rule strptime_rejected)
  then show "start_workflow env self date s = (Inr False, s)" by (rule workflow_check_raises)
next
  assume "check_date_exists env date s = (Inr True, s1)"
  then show "start_workflow env self date s = (Inr False, s1)" by (rule workflow_exists)
next
  assume "check_date_exists env date s = (Inr False, s1) \<and>
    extract_data_from_minio env self date s1 = (Inr [], s2)"
  then show "start_workflow env self date s = (Inr False, s2)" by (auto intro: workflow_no_data)
next
  assume "workflow_body env self date s = (Inl e, s3)"
  then show "start_workflow env self date s = (Inr False, s3)" by (simp add: start_workflow_body)
qed

text \<open>
  Claim C6. A run starts with the duplicate check, whose calls go to the database only;
  everything else the run does comes after it. When the check says the date is present
  the run ends there with \<open>False\<close>: no fetch, no load. Anything after the check happens
  only when the check returned \<open>False\<close>, after its query. The extract task of the DAG,
  told that the date exists, returns \<open>None\<close> without any call.
\<close>

theorem duplicate_check_first:
  assumes "start_workflow env self date s = (r, s')"
  shows "\<exists>c s1 es.
     check_date_exists env date s = (c, s1) \<and> fst s1 = fst s @ es \<and>
     prefix (fst s1) (fst s') \<and>
     set es \<subseteq> {PgConnect, PgExit True, PgExit False} \<union> range PgSelectSaleExists \<and>
     (c = Inr True \<longrightarrow> r = Inr False \<and> s' = s1) \<and>
     (fst s' \<noteq> fst s1 \<longrightarrow> c = Inr False \<and>
        (\<exists>fd. es = [PgConnect, PgSelectSaleExists fd, PgExit False])) \<and>
     dag_extract_data_from_minio env b k date True s = (Inr None, s)"
proof -
  obtain c s1 where c: "check_date_exists env date s = (c, s1)"
    by (cases "check_date_exists env date s")
  from check_date_exists_events[OF c] obtain es where es0: "fst s1 = fst s @ es \<and>
      set es \<subseteq> {PgConnect, PgExit True, PgExit False} \<union> range PgSelectSaleExists \<and>
      (\<forall>b. c = Inr b \<longrightarrow> (\<exists>fd. es = [PgConnect, PgSelectSaleExists fd, PgExit False]))" ..
  then have es: "fst s1 = fst s @ es"
      "set es \<subseteq> {PgConnect, PgExit True, PgExit False} \<union> range PgSelectSaleExists"
      "\<forall>b. c = Inr b \<longrightarrow> (\<exists>fd. es = [PgConnect, PgSelectSaleExists fd, PgExit False])"
    by simp_all
  have dag: "dag_extract_data_from_minio env b k date True s = (Inr None, s)"
    by (simp add: dag_extract_data_from_minio_def)
  note w = workflow_after_check[OF assms c]
  have 1: "c = Inr True \<longrightarrow> r = Inr False \<and> s' = s1" using w(2) by auto
  have 2: "fst s' \<noteq> fst s1 \<longrightarrow> c = Inr False \<and>
        (\<exists>fd. es = [PgConnect, PgSelectSaleExists fd, PgExit False])"
    using w(2) es(3) by auto
  from c es(1) w(1) es(2) 1 2 dag show ?thesis by blast
qed

text \<open>
  Claim C4, as the code has it. The short circuit for an empty extract sits before the
  database code of the loader. In the DAG the load task, given \<open>None\<close>, returns status
  \<open>skipped\<close> with \<open>rows_inserted = 0\<close> and makes no call, and the extract task never hands
  over an empty frame. In \<open>src/main.py\<close>, \<open>start_workflow\<close> returns \<open>False\<close> on an empty
  extract without calling the loader.
\<close>

theorem empty_input_short_circuit:
  "dag_load_data_to_postgres env None s = (Inr \<lparr>status = ''skipped'', rows_inserted = 0\<rparr>, s) \<and>
   (dag_extract_data_from_minio env b k date ex s = (Inr (Some df), s1) \<longrightarrow> df \<noteq> []) \<and>
   (check_date_exists env date s = (Inr False, s1) \<and>
    extract_data_from_minio env self date s1 = (Inr [], s2) \<longrightarrow>
      start_workflow env self date s = (Inr False, s2))"
proof (intro conjI impI)
  show "dag_load_data_to_postgres env None s = (Inr \<lparr>status = ''skipped'', rows_inserted = 0\<rparr>, s)"
    by (simp add: dag_load_data_to_postgres_def)
next
  assume a: "dag_extract_data_from_minio env b k date ex s = (Inr (Some df), s1)"
  show "df \<noteq> []"
  proof (cases "strptime (rt env) date")
    case (Inl e)
    with a show ?thesis by (simp add: dag_extract_data_from_minio_def split: if_splits)
  next
    case (Inr dt)
    obtain r1 s1' where c: "call (S3GetObject b k) (s3_get_csv env b k) s = (r1, s1')"
      by (cases "call (S3GetObject b k) (s3_get_csv env b k) s")
    with a Inr show ?thesis
      by (cases r1) (auto simp: dag_extract_data_from_minio_def Let_def split: if_splits)
  qed
next
  assume "check_date_exists env date s = (Inr False, s1) \<and>
    extract_data_from_minio env self date s1 = (Inr [], s2)"
  then show "start_workflow env self date s = (Inr False, s2)" by (auto intro: workflow_no_data)
qed

lemma pair_fst: "fst p = a \<Longrightarrow> p = (a, snd p)"
  by (cases p) simp

theorem start_workflow_true_iff_witness:
  "fst (start_workflow store_env sample_self sample_date (fresh [sample_row])) = Inr True \<and>
   start_workflow store_env sample_self (ascii ''2023-6-15'') (fresh [sample_row]) =
     (Inr False, fresh [sample_row]) \<and>
   fst (check_date_exists store_env sample_date loaded) = Inr True \<and>
   fst (start_workflow store_env sample_self sample_date loaded) = Inr False \<and>
   fst (extract_data_from_minio store_env sample_self sample_date
          (snd (check_date_exists store_env sample_date (fresh [earlier_row])))) = Inr [] \<and>
   fst (start_workflow store_env sample_self sample_date (fresh [earlier_row])) = Inr False \<and>
   fst (workflow_body store_env sample_self sample_date down) = Inl DataInjectionError \<and>
   fst (start_workflow store_env sample_self sample_date down) = Inr False"
proof -
  let ?env = "store_env :: (nat, nat world) env"
  let ?s = "fresh [sample_row]"
  let ?s1 = "snd (check_date_exists ?env sample_date ?s)"
  let ?s2 = "snd (extract_data_from_minio ?env sample_self sample_date ?s1)"
  let ?s3 = "snd (load_data_to_postgres ?env [sample_row] ?s2)"
  have c: "check_date_exists ?env sample_date ?s = (Inr False, ?s1)"
    by (rule pair_fst) code_simp
  have x: "extract_data_from_minio ?env sample_self sample_date ?s1 = (Inr [sample_row], ?s2)"
    by (rule pair_fst) code_simp
  have l: "load_data_to_postgres ?env [sample_row] ?s2 = (Inr (), ?s3)"
    by (rule pair_fst) code_simp
  have ne: "[sample_row] \<noteq> []" by simp
  from c x l ne start_workflow_true_iff[where env = ?env and self = sample_self
      and date = sample_date and s = ?s]
  have 1: "fst (start_workflow ?env sample_self sample_date ?s) = Inr True" by blast
  have b: "strptime (rt ?env) (ascii ''2023-6-15'') = Inl ValueError" by code_simp
  from b start_workflow_true_iff[where env = ?env and self = sample_self
      and date = "ascii ''2023-6-15''" and s = ?s and e = ValueError]
  have 2: "start_workflow ?env sample_self (ascii ''2023-6-15'') ?s = (Inr False, ?s)" by blast
  have c3: "fst (check_date_exists ?env sample_date loaded) = Inr True" by code_simp
  then have "check_date_exists ?env sample_date loaded =
      (Inr True, snd (check_date_exists ?env sample_date loaded))" by (rule pair_fst)
  with start_workflow_true_iff[where env = ?env and self = sample_self
      and date = sample_date and s = loaded
      and ?s1.0 = "snd (check_date_exists ?env sample_date loaded)"]
  have 3: "fst (start_workflow ?env sample_self sample_date loaded) = Inr False" by simp
  let ?e = "fresh [earlier_row]"
  let ?e1 = "snd (check_date_exists ?env sample_date ?e)"
  let ?e2 = "snd (extract_data_from_minio ?env sample_self sample_date ?e1)"
  have c4: "check_date_exists ?env sample_date ?e = (Inr False, ?e1)"
    by (rule pair_fst) code_simp
  have x4f: "fst (extract_data_from_minio ?env sample_self sample_date ?e1) = Inr []"
    by code_simp
  then have x4: "extract_data_from_minio ?env sample_self sample_date ?e1 = (Inr [], ?e2)"
    by (rule pair_fst)
  from c4 x4 start_workflow_true_iff[where env = ?env and self = sample_self
      and date = sample_date and s = ?e and ?s1.0 = ?e1 and ?s2.0 = ?e2]
  have 4: "fst (start_workflow ?env sample_self sample_date ?e) = Inr False" by simp
  have w5f: "fst (workflow_body ?env sample_self sample_date down) = Inl DataInjectionError"
    by code_simp
  then have "workflow_body ?env sample_self sample_date down =
      (Inl DataInjectionError, snd (workflow_body ?env sample_self sample_date down))"
    by (rule pair_fst)
  with start_workflow_true_iff[where env = ?env and self = sample_self
      and date = sample_date and s = down and e = DataInjectionError
      and ?s3.0 = "snd (workflow_body ?env sample_self sample_date down)"]
  have 5: "fst (start_workflow ?env sample_self sample_date down) = Inr False" by simp
  from 1 2 c3 3 x4f 4 w5f 5 show ?thesis by blast
qed

theorem duplicate_check_first_witness:
  "fst (check_date_exists store_env sample_date loaded) = Inr True \<and>
   start_workflow store_env sample_self sample_date loaded =
     (Inr False, snd (check_date_exists store_env sample_date loaded)) \<and>
   fst (snd (start_workflow store_env sample_self sample_date loaded)) =
     [PgConnect, PgSelectSaleExists (ascii ''2023-06-15''), PgExit False] \<and>
   fst (snd (start_workflow store_env sample_self sample_date (fresh [sample_row]))) \<noteq>
     fst (snd (check_date_exists store_env sample_date (fresh [sample_row]))) \<and>
   fst (check_date_exists store_env sample_date (fresh [sample_row])) = Inr False"
proof -
  let ?env = "store_env :: (nat, nat world) env"
  let ?c = "check_date_exists ?env sample_date loaded"
  let ?w = "start_workflow ?env sample_self sample_date loaded"
  have cf: "fst ?c = Inr True" by code_simp
  have ct: "fst (snd ?c) = [PgConnect, PgSelectSaleExists (ascii ''2023-06-15''), PgExit False]"
    by code_simp
  have w: "?w = (fst ?w, snd ?w)" by simp
  from duplicate_check_first[OF w] obtain c s1 where
    a: "check_date_exists ?env sample_date loaded = (c, s1)"
    and b: "c = Inr True \<longrightarrow> fst ?w = Inr False \<and> snd ?w = s1" by blast
  from a cf have "c = Inr True" "s1 = snd ?c" by simp_all
  with b have 1: "?w = (Inr False, snd ?c)" by (simp add: prod_eq_iff)
  then have 2: "fst (snd ?w) = [PgConnect, PgSelectSaleExists (ascii ''2023-06-15''), PgExit False]"
    using ct by simp
  let ?c' = "check_date_exists ?env sample_date (fresh [sample_row])"
  let ?w' = "start_workflow ?env sample_self sample_date (fresh [sample_row])"
  have ne: "fst (snd ?w') \<noteq> fst (snd ?c')" by code_simp
  have w': "?w' = (fst ?w', snd ?w')" by simp
  from duplicate_check_first[OF w'] obtain c' s1' where
    a': "check_date_exists ?env sample_date (fresh [sample_row]) = (c', s1')"
    and b': "fst (snd ?w') \<noteq> fst s1' \<longrightarrow> c' = Inr False" by blast
  from a' have "s1' = snd ?c'" "c' = fst ?c'" by simp_all
  with b' ne have 3: "fst ?c' = Inr False" by simp
  from cf 1 2 ne 3 show ?thesis by blast
qed

theorem empty_input_short_circuit_witness:
  "dag_extract_data_from_minio store_env (bucket sample_self) (file_attr sample_self) sample_date
      False (fresh [sample_row]) =
     (Inr (Some [sample_row]),
      ([S3GetObject (bucket sample_self) (file_attr sample_self)], snd (fresh [sample_row]))) \<and>
   [sample_row] \<noteq> [] \<and>
   fst (dag_extract_data_from_minio store_env (bucket sample_self) (file_attr sample_self)
          sample_date False (fresh [earlier_row])) = Inr None \<and>
   fst (check_date_exists store_env sample_date (fresh [earlier_row])) = Inr False \<and>
   start_workflow store_env sample_self sample_date (fresh [earlier_row]) =
     (Inr False,
      ([PgConnect, PgSelectSaleExists (ascii ''2023-06-15''), PgExit False,
        S3GetObject (bucket sample_self) (file_attr sample_self)], snd (fresh [earlier_row])))"
proof -
  let ?env = "store_env :: (nat, nat world) env"
  let ?b = "bucket sample_self" and ?k = "file_attr sample_self"
  have d: "dag_extract_data_from_minio ?env ?b ?k sample_date False (fresh [sample_row]) =
     (Inr (Some [sample_row]), ([S3GetObject ?b ?k], snd (fresh [sample_row])))"
    by code_simp
  from d empty_input_short_circuit[where env = ?env and b = ?b and k = ?k and date = sample_date
      and ex = False and s = "fresh [sample_row]" and df = "[sample_row]"
      and ?s1.0 = "([S3GetObject ?b ?k], snd (fresh [sample_row]))"]
  have 1: "[sample_row] \<noteq> []" by blast
  have n: "fst (dag_extract_data_from_minio ?env ?b ?k sample_date False (fresh [earlier_row])) =
     Inr None" by code_simp
  let ?e = "fresh [earlier_row]"
  let ?e1 = "snd (check_date_exists ?env sample_date ?e)"
  let ?e2 = "([PgConnect, PgSelectSaleExists (ascii ''2023-06-15''), PgExit False,
        S3GetObject ?b ?k], snd ?e)"
  have cf: "fst (check_date_exists ?env sample_date ?e) = Inr False" by code_simp
  then have c: "check_date_exists ?env sample_date ?e = (Inr False, ?e1)" by (rule pair_fst)
  have x: "extract_data_from_minio ?env sample_self sample_date ?e1 = (Inr [], ?e2)"
    by code_simp
  from c x empty_input_short_circuit[where env = ?env and self = sample_self
      and date = sample_date and s = ?e and ?s1.0 = ?e1 and ?s2.0 = ?e2]
  have 2: "start_workflow ?env sample_self sample_date ?e = (Inr False, ?e2)" by blast
  from d 1 n cf 2 show ?thesis by blast
qed

text \<open>
  Claim C4 as stated fails: given an empty frame, the loader of \<open>src/main.py\<close> opens a
  connection and commits, and the load task of the DAG does the same and reports
  \<open>success\<close>.
\<close>

theorem empty_frame_load_counterexample:
  "load_data_to_postgres store_env [] (fresh []) =
     (Inr (), ([PgConnect, PgCommit, PgExit False], snd (fresh []))) \<and>
   dag_load_data_to_postgres store_env (Some []) (fresh []) =
     (Inr \<lparr>status = ''success'', rows_inserted = 0\<rparr>,
      ([PgConnect, PgCommit, PgClose], snd (fresh [])))"
  by code_simp

section \<open>Rows and runs on the store\<close>

lemma store_env_simps [simp]:
  "pg_connect store_env = store_connect"
  "pg_select_sale_exists store_env = store_select_sale_exists"
  "pg_execute store_env = store_execute"
  "pg_commit store_env = store_commit"
  "pg_exit store_env = store_exit"
  "pg_close store_env = store_close"
  "s3_get_csv store_env = store_get_csv"
  "rt store_env = sample_runtime"
  by (simp_all add: store_env_def)

lemma has_key_prefix: "prefix t t' \<Longrightarrow> has_key k t \<Longrightarrow> has_key k t'"
  by (auto simp: has_key_def list_ex_iff prefix_def)

lemma has_key_append [simp]: "has_key (hd r) (t @ [r])"
  by (simp add: has_key_def list_ex_iff)

lemma grows_refl [simp]: "grows t t"
  by (simp add: grows_def)

lemma grows_trans: "grows t t' \<Longrightarrow> grows t' t'' \<Longrightarrow> grows t t''"
  by (auto simp: grows_def intro: prefix_order.trans)

lemma apply_stmt_grows: "apply_stmt q t = Some t' \<Longrightarrow> grows t t'"
  by (cases q) (auto simp: apply_stmt_def grows_def insert_if_absent_def split: if_splits)

lemma apply_stmt_key: "apply_stmt q t = Some t' \<Longrightarrow> key_stored q t'"
  by (cases q) (auto simp: apply_stmt_def key_stored_def insert_if_absent_def split: if_splits)

lemma key_stored_grows: "grows t t' \<Longrightarrow> key_stored q t \<Longrightarrow> key_stored q t'"
  by (cases q) (auto simp: key_stored_def grows_def intro: has_key_prefix)

lemma apply_all_grows: "grows t (snd (apply_all qs t))"
proof (induction qs arbitrary: t)
  case Nil
  show ?case by simp
next
  case (Cons q qs)
  show ?case
  proof (cases "apply_stmt q t")
    case None
    then show ?thesis by simp
  next
    case (Some t')
    with apply_stmt_grows[OF Some] Cons[of t'] show ?thesis by (auto intro: grows_trans)
  qed
qed

lemma apply_all_keys:
  "fst (apply_all qs t) \<Longrightarrow> q \<in> set qs \<Longrightarrow> key_stored q (snd (apply_all qs t))"
proof (induction qs arbitrary: t)
  case Nil
  then show ?case by simp
next
  case (Cons q' qs)
  from Cons.prems(1) obtain t' where t': "apply_stmt q' t = Some t'"
    by (cases "apply_stmt q' t") auto
  with Cons.prems(1) have f: "fst (apply_all qs t')" by simp
  show ?case
  proof (cases "q \<in> set qs")
    case True
    from Cons.IH[OF f True] t' show ?thesis by simp
  next
    case False
    with Cons.prems(2) have "q = q'" by simp
    with apply_stmt_key[OF t'] have "key_stored q t'" by simp
    with apply_all_grows[of t' qs] have "key_stored q (snd (apply_all qs t'))"
      by (auto intro: key_stored_grows)
    with t' show ?thesis by simp
  qed
qed

lemma row_stored_grows: "grows t t' \<Longrightarrow> row_stored row t \<Longrightarrow> row_stored row t'"
  by (auto simp: row_stored_def grows_def intro: has_key_prefix)

lemma apply_all_row_stored:
  assumes "apply_all (row_statements row) t = (True, t')"
  shows "row_stored row t'"
proof -
  from assms have f: "fst (apply_all (row_statements row) t)"
    and t': "snd (apply_all (row_statements row) t) = t'" by simp_all
  have "\<forall>q\<in>set (row_statements row). key_stored q t'"
    using apply_all_keys[OF f] t' by simp
  then show ?thesis by (simp add: row_statements_def key_stored_def row_stored_def)
qed

text \<open>The statements of a row on an open and on an aborted transaction.\<close>

lemma execute_all_active:
  assumes "session w = Active t"
  shows "\<exists>k. (qs \<noteq> [] \<longrightarrow> 1 \<le> k) \<and> k \<le> length qs \<and> (fst (apply_all qs t) \<longrightarrow> k = length qs) \<and>
     execute_all store_env qs (tr, w) =
     (if fst (apply_all qs t) then Inr () else Inl PsycopgError,
      (tr @ map PgExecute (take k qs),
       w\<lparr>session := if fst (apply_all qs t) then Active (snd (apply_all qs t)) else Aborted\<rparr>))"
  using assms
proof (induction qs arbitrary: tr w t)
  case Nil
  then have "w\<lparr>session := Active t\<rparr> = w" by simp
  then show ?case by simp
next
  case (Cons q qs)
  show ?case
  proof (cases "apply_stmt q t")
    case None
    with Cons.prems have "execute_all store_env (q # qs) (tr, w) =
        (Inl PsycopgError, (tr @ map PgExecute (take 1 (q # qs)), w\<lparr>session := Aborted\<rparr>))"
      by (simp add: call_def store_execute_def)
    then show ?thesis using None by (intro exI[of _ 1]) simp
  next
    case (Some t')
    let ?w' = "w\<lparr>session := Active t'\<rparr>"
    have s': "session ?w' = Active t'" by simp
    from Cons.IH[OF s', of "tr @ [PgExecute q]"] obtain k where
      k: "k \<le> length qs" "fst (apply_all qs t') \<longrightarrow> k = length qs"
      "execute_all store_env qs (tr @ [PgExecute q], ?w') =
        (if fst (apply_all qs t') then Inr () else Inl PsycopgError,
         ((tr @ [PgExecute q]) @ map PgExecute (take k qs),
          ?w'\<lparr>session := if fst (apply_all qs t') then Active (snd (apply_all qs t'))
                            else Aborted\<rparr>))" by blast
    have "execute_all store_env (q # qs) (tr, w) =
        execute_all store_env qs (tr @ [PgExecute q], ?w')"
      using Cons.prems Some by (simp add: call_def store_execute_def)
    with k Some show ?thesis by (intro exI[of _ "Suc k"]) simp
  qed
qed

lemma execute_all_aborted:
  assumes "session w = Aborted"
  shows "execute_all store_env (q # qs) (tr, w) = (Inl PsycopgError, (tr @ [PgExecute q], w))"
  using assms by (simp add: call_def store_execute_def)

lemma row_statements_Cons: "\<exists>q qs. row_statements row = q # qs"
  by (simp add: row_statements_def)

lemma row_active:
  assumes "session w = Active t"
  shows "execute_all store_env (row_statements row) (tr, w) = (r, s') \<Longrightarrow>
     r = (if fst (apply_all (row_statements row) t) then Inr () else Inl PsycopgError) \<and>
     snd s' = w\<lparr>session := if fst (apply_all (row_statements row) t)
                             then Active (snd (apply_all (row_statements row) t)) else Aborted\<rparr>"
  using execute_all_active[OF assms, of "row_statements row" tr] by auto

lemma row_aborted:
  assumes "session w = Aborted"
  shows "execute_all store_env (row_statements row) (tr, w) = (r, s') \<Longrightarrow>
     r = Inl PsycopgError \<and> snd s' = w"
  using execute_all_aborted[OF assms] row_statements_Cons[of row] by auto

lemma dag_insert_rows_aborted:
  "session w = Aborted \<Longrightarrow> dag_insert_rows store_env rows n (tr, w) = (m, s') \<Longrightarrow>
   m = n \<and> snd s' = w"
proof (induction rows arbitrary: tr s' m)
  case Nil
  then show ?case by auto
next
  case (Cons row rows)
  obtain r s1 where e: "execute_all store_env (row_statements row) (tr, w) = (r, s1)"
    by (cases "execute_all store_env (row_statements row) (tr, w)")
  from row_aborted[OF Cons.prems(1) e] have r: "r = Inl PsycopgError" and s1: "s1 = (fst s1, w)"
    by (simp_all add: prod_eq_iff)
  from Cons.prems(2) e r have "dag_insert_rows store_env rows n s1 = (m, s')" by simp
  with s1 have "dag_insert_rows store_env rows n (fst s1, w) = (m, s')" by simp
  from Cons.IH[OF Cons.prems(1) this] show ?case .
qed

lemma dag_insert_rows_active:
  "session w = Active t \<Longrightarrow> dag_insert_rows store_env rows n (tr, w) = (m, s') \<Longrightarrow>
   m = n + fst (apply_rows rows t) \<and>
   snd s' = w\<lparr>session := (case snd (apply_rows rows t) of Some t' \<Rightarrow> Active t'
                           | None \<Rightarrow> Aborted)\<rparr>"
proof (induction rows arbitrary: tr w t n s' m)
  case Nil
  then have "w\<lparr>session := Active t\<rparr> = w" by simp
  with Nil show ?case by auto
next
  case (Cons row rows)
  obtain r s1 where e: "execute_all store_env (row_statements row) (tr, w) = (r, s1)"
    by (cases "execute_all store_env (row_statements row) (tr, w)")
  obtain b t1 where a: "apply_all (row_statements row) t = (b, t1)"
    by (cases "apply_all (row_statements row) t")
  note ra = row_active[OF Cons.prems(1) e]
  show ?case
  proof (cases b)
    case True
    with ra a have r: "r = Inr ()" and s1: "s1 = (fst s1, w\<lparr>session := Active t1\<rparr>)"
      by (simp_all add: prod_eq_iff)
    from Cons.prems(2) e r have "dag_insert_rows store_env rows (n + 1) s1 = (m, s')" by simp
    with s1 have d: "dag_insert_rows store_env rows (n + 1) (fst s1, w\<lparr>session := Active t1\<rparr>) =
        (m, s')" by simp
    have "session (w\<lparr>session := Active t1\<rparr>) = Active t1" by simp
    from Cons.IH[OF this d] a True show ?thesis
      by (cases "apply_rows rows t1") simp
  next
    case False
    with ra a have r: "r = Inl PsycopgError" and s1: "s1 = (fst s1, w\<lparr>session := Aborted\<rparr>)"
      by (simp_all add: prod_eq_iff)
    from Cons.prems(2) e r have "dag_insert_rows store_env rows n s1 = (m, s')" by simp
    with s1 have d: "dag_insert_rows store_env rows n (fst s1, w\<lparr>session := Aborted\<rparr>) =
        (m, s')" by simp
    have "session (w\<lparr>session := Aborted\<rparr>) = Aborted" by simp
    from dag_insert_rows_aborted[OF this d] a False show ?thesis by simp
  qed
qed

lemma store_execute_error: "store_execute q w = (Inl e, w') \<Longrightarrow> e = PsycopgError"
  by (auto simp: store_execute_def split: txn.splits option.splits)

lemma execute_all_store_error:
  "execute_all store_env qs s = (Inl e, s') \<Longrightarrow> e = PsycopgError"
proof (induction qs arbitrary: s)
  case Nil
  then show ?case by simp
next
  case (Cons q qs)
  show ?case
  proof (cases rule: call_cases[of "pg_execute store_env q" s "PgExecute q"])
    case (raise ex w)
    with Cons.prems have "e = ex" by simp
    with raise(1) store_execute_error[of q "snd s" ex w] show ?thesis by simp
  next
    case (return x w)
    with Cons.prems have "execute_all store_env qs (fst s @ [PgExecute q], w) = (Inl e, s')"
      by simp
    from Cons.IH[OF this] show ?thesis .
  qed
qed

lemma row_outcomes_store:
  "set (row_outcomes store_env rows s) \<subseteq> {None, Some PsycopgError}"
proof (induction rows arbitrary: s)
  case Nil
  show ?case by simp
next
  case (Cons row rows)
  obtain r s1 where e: "execute_all store_env (row_statements row) s = (r, s1)"
    by (cases "execute_all store_env (row_statements row) s")
  show ?case
  proof (cases r)
    case (Inl ex)
    with e execute_all_store_error[of "row_statements row" s ex s1] have "ex = PsycopgError"
      by simp
    with e Inl Cons.IH[of s1] show ?thesis by simp
  next
    case (Inr u)
    with e Cons.IH[of s1] show ?thesis by simp
  qed
qed

lemma insert_rows_store:
  "insert_rows store_env rows n s =
     (Inr (fst (dag_insert_rows store_env rows n s)), snd (dag_insert_rows store_env rows n s))"
  using row_outcomes_store by (rule insert_rows_storage_errors)

lemma apply_rows_True:
  "apply_all (row_statements row) t = (True, t1) \<Longrightarrow>
   apply_rows (row # rows) t = (Suc (fst (apply_rows rows t1)), snd (apply_rows rows t1))"
  by (cases "apply_rows rows t1") simp

lemma apply_rows_False:
  "apply_all (row_statements row) t = (False, t1) \<Longrightarrow> apply_rows (row # rows) t = (0, None)"
  by simp

lemma apply_rows_None: "snd (apply_rows rows t) = None \<Longrightarrow> fst (apply_rows rows t) < length rows"
proof (induction rows arbitrary: t)
  case Nil
  then show ?case by simp
next
  case (Cons row rows)
  obtain b t1 where a: "apply_all (row_statements row) t = (b, t1)"
    by (cases "apply_all (row_statements row) t")
  show ?case
  proof (cases b)
    case True
    with a have "apply_all (row_statements row) t = (True, t1)" by simp
    note u = apply_rows_True[OF this, of rows]
    with Cons.prems have "snd (apply_rows rows t1) = None" by simp
    from Cons.IH[OF this] u show ?thesis by simp
  next
    case False
    with a show ?thesis by simp
  qed
qed

lemma apply_rows_Some:
  "snd (apply_rows rows t) = Some t' \<Longrightarrow>
   fst (apply_rows rows t) = length rows \<and> grows t t' \<and> (\<forall>row\<in>set rows. row_stored row t')"
proof (induction rows arbitrary: t)
  case Nil
  then show ?case by simp
next
  case (Cons row rows)
  obtain b t1 where a: "apply_all (row_statements row) t = (b, t1)"
    by (cases "apply_all (row_statements row) t")
  show ?case
  proof (cases b)
    case True
    with a have a': "apply_all (row_statements row) t = (True, t1)" by simp
    note u = apply_rows_True[OF a', of rows]
    with Cons.prems have s: "snd (apply_rows rows t1) = Some t'" by simp
    note ih = Cons.IH[OF s]
    from apply_all_grows[of t "row_statements row"] a have g: "grows t t1" by simp
    from a' have "row_stored row t1" by (rule apply_all_row_stored)
    with ih have "row_stored row t'" by (blast intro: row_stored_grows)
    with ih g u show ?thesis by (auto intro: grows_trans)
  next
    case False
    with a Cons.prems show ?thesis by simp
  qed
qed

lemma row_outcomes_aborted:
  "session w = Aborted \<Longrightarrow>
   row_outcomes store_env rows (tr, w) = replicate (length rows) (Some PsycopgError)"
proof (induction rows arbitrary: tr)
  case Nil
  show ?case by simp
next
  case (Cons row rows)
  obtain r s1 where e: "execute_all store_env (row_statements row) (tr, w) = (r, s1)"
    by (cases "execute_all store_env (row_statements row) (tr, w)")
  from row_aborted[OF Cons.prems e] have r: "r = Inl PsycopgError" and s1: "s1 = (fst s1, w)"
    by (simp_all add: prod_eq_iff)
  from Cons.IH[OF Cons.prems, of "fst s1"] s1
  have "row_outcomes store_env rows s1 = replicate (length rows) (Some PsycopgError)" by simp
  with e r show ?case by simp
qed

lemma row_outcomes_active:
  "session w = Active t \<Longrightarrow>
   row_outcomes store_env rows (tr, w) =
     replicate (fst (apply_rows rows t)) None @
     replicate (length rows - fst (apply_rows rows t)) (Some PsycopgError)"
proof (induction rows arbitrary: tr w t)
  case Nil
  show ?case by simp
next
  case (Cons row rows)
  obtain r s1 where e: "execute_all store_env (row_statements row) (tr, w) = (r, s1)"
    by (cases "execute_all store_env (row_statements row) (tr, w)")
  obtain b t1 where a: "apply_all (row_statements row) t = (b, t1)"
    by (cases "apply_all (row_statements row) t")
  note ra = row_active[OF Cons.prems e]
  show ?case
  proof (cases b)
    case True
    with ra a have r: "r = Inr ()" and s1: "s1 = (fst s1, w\<lparr>session := Active t1\<rparr>)"
      by (simp_all add: prod_eq_iff)
    have "session (w\<lparr>session := Active t1\<rparr>) = Active t1" by simp
    from Cons.IH[OF this, of "fst s1"] s1
    have "row_outcomes store_env rows s1 =
        replicate (fst (apply_rows rows t1)) None @
        replicate (length rows - fst (apply_rows rows t1)) (Some PsycopgError)" by simp
    moreover from a True have "apply_all (row_statements row) t = (True, t1)" by simp
    note apply_rows_True[OF this, of rows]
    ultimately show ?thesis using e r by simp
  next
    case False
    with ra a have r: "r = Inl PsycopgError" and s1: "s1 = (fst s1, w\<lparr>session := Aborted\<rparr>)"
      by (simp_all add: prod_eq_iff)
    have "session (w\<lparr>session := Aborted\<rparr>) = Aborted" by simp
    from row_outcomes_aborted[OF this, of rows "fst s1"] s1
    have "row_outcomes store_env rows s1 = replicate (length rows) (Some PsycopgError)" by simp
    with e r a False show ?thesis by simp
  qed
qed

text \<open>What a load leaves in the store.\<close>

lemma dag_load_store:
  assumes "db_up w"
    and "dag_load_data_to_postgres store_env (Some rows) (tr, w) = (res, s')"
  shows "res = Inr \<lparr>status = ''success'', rows_inserted = fst (apply_rows rows (committed w))\<rparr> \<and>
     snd s' = w\<lparr>committed := (case snd (apply_rows rows (committed w)) of
                                 Some t' \<Rightarrow> t' | None \<Rightarrow> committed w),
                session := Idle\<rparr>"
proof -
  let ?w1 = "w\<lparr>session := Active (committed w)\<rparr>"
  have c: "call PgConnect store_connect (tr, w) = (Inr (), (tr @ [PgConnect], ?w1))"
    using assms(1) by (simp add: call_def store_connect_def)
  obtain m s2 where d: "dag_insert_rows store_env rows 0 (tr @ [PgConnect], ?w1) = (m, s2)"
    by (cases "dag_insert_rows store_env rows 0 (tr @ [PgConnect], ?w1)")
  have "session ?w1 = Active (committed w)" by simp
  from dag_insert_rows_active[OF this d]
  have m: "m = fst (apply_rows rows (committed w))" by simp
  from dag_insert_rows_active[OF \<open>session ?w1 = Active (committed w)\<close> d]
  obtain tr2 where s2: "s2 = (tr2, ?w1\<lparr>session := (case snd (apply_rows rows (committed w)) of
                     Some t' \<Rightarrow> Active t' | None \<Rightarrow> Aborted)\<rparr>)"
    by (cases s2) simp
  show ?thesis
  proof (cases "snd (apply_rows rows (committed w))")
    case None
    with s2 have "s2 = (tr2, w\<lparr>session := Aborted\<rparr>)" by simp
    then have "dag_load_data_to_postgres store_env (Some rows) (tr, w) =
        (Inr \<lparr>status = ''success'', rows_inserted = m\<rparr>,
         (fst s2 @ [PgCommit, PgClose], w\<lparr>session := Idle\<rparr>))"
      using c d
      by (simp add: dag_load_data_to_postgres_def)
         (simp add: call_def store_commit_def store_close_def)
    with assms(2) m None show ?thesis by auto
  next
    case (Some t')
    with s2 have "s2 = (tr2, w\<lparr>session := Active t'\<rparr>)" by simp
    then have "dag_load_data_to_postgres store_env (Some rows) (tr, w) =
        (Inr \<lparr>status = ''success'', rows_inserted = m\<rparr>,
         (fst s2 @ [PgCommit, PgClose], w\<lparr>committed := t', session := Idle\<rparr>))"
      using c d
      by (simp add: dag_load_data_to_postgres_def)
         (simp add: call_def store_commit_def store_close_def)
    with assms(2) m Some show ?thesis by auto
  qed
qed

lemma load_store:
  assumes "db_up w"
    and "load_data_to_postgres store_env rows (tr, w) = (res, s')"
  shows "res = Inr () \<and>
     snd s' = w\<lparr>committed := (case snd (apply_rows rows (committed w)) of
                                 Some t' \<Rightarrow> t' | None \<Rightarrow> committed w),
                session := Idle\<rparr>"
proof -
  let ?w1 = "w\<lparr>session := Active (committed w)\<rparr>"
  have c: "call PgConnect store_connect (tr, w) = (Inr (), (tr @ [PgConnect], ?w1))"
    using assms(1) by (simp add: call_def store_connect_def)
  obtain m s2 where d: "dag_insert_rows store_env rows 0 (tr @ [PgConnect], ?w1) = (m, s2)"
    by (cases "dag_insert_rows store_env rows 0 (tr @ [PgConnect], ?w1)")
  with insert_rows_store[of rows 0 "(tr @ [PgConnect], ?w1)"]
  have i: "insert_rows store_env rows 0 (tr @ [PgConnect], ?w1) = (Inr m, s2)" by simp
  have "session ?w1 = Active (committed w)" by simp
  from dag_insert_rows_active[OF this d]
  obtain tr2 where s2: "s2 = (tr2, ?w1\<lparr>session := (case snd (apply_rows rows (committed w)) of
                     Some t' \<Rightarrow> Active t' | None \<Rightarrow> Aborted)\<rparr>)"
    by (cases s2) simp
  show ?thesis
  proof (cases "snd (apply_rows rows (committed w))")
    case None
    with s2 have "s2 = (tr2, w\<lparr>session := Aborted\<rparr>)" by simp
    then have "load_data_to_postgres store_env rows (tr, w) =
        (Inr (), (fst s2 @ [PgCommit, PgExit False], w\<lparr>session := Idle\<rparr>))"
      using c i
      by (simp add: load_data_to_postgres_def)
         (simp add: call_def store_commit_def store_exit_def)
    with assms(2) None show ?thesis by auto
  next
    case (Some t')
    with s2 have "s2 = (tr2, w\<lparr>session := Active t'\<rparr>)" by simp
    then have "load_data_to_postgres store_env rows (tr, w) =
        (Inr (), (fst s2 @ [PgCommit, PgExit False], w\<lparr>committed := t', session := Idle\<rparr>))"
      using c i
      by (simp add: load_data_to_postgres_def)
         (simp add: call_def store_commit_def store_exit_def)
    with assms(2) Some show ?thesis by auto
  qed
qed

lemma dag_load_store_down:
  "\<not> db_up w \<Longrightarrow> dag_load_data_to_postgres store_env (Some rows) (tr, w) =
     (Inl DataInjectionError, (tr @ [PgConnect], w))"
  by (simp add: dag_load_data_to_postgres_def call_def store_connect_def)

lemma load_store_down:
  "\<not> db_up w \<Longrightarrow> load_data_to_postgres store_env rows (tr, w) =
     (Inl DataInjectionError, (tr @ [PgConnect], w))"
  by (simp add: load_data_to_postgres_def call_def store_connect_def on_psycopg_error_def)

subsection \<open>What a load stores\<close>

text \<open>
  Claim C3, on the store above. A load leaves in the store either the four entities of
  every row of the batch or nothing new. When the insert sequence of a row raises, at
  whichever of its four inserts, the transaction is aborted and the commit stores
  nothing: neither that row nor any other creates an entity. Both loaders leave the same
  tables, nothing stored before is lost, and when the task of the DAG reports every row
  as inserted every row is stored; when it reports fewer, the store is as it was.
\<close>

theorem row_atomicity:
  assumes d: "dag_load_data_to_postgres store_env (Some rows) (tr, w) = (res, s')"
    and l: "load_data_to_postgres store_env rows (tr, w) = (res', s'')"
  shows "committed (snd s'') = committed (snd s') \<and>
     grows (committed w) (committed (snd s')) \<and>
     ((\<forall>row\<in>set rows. row_stored row (committed (snd s'))) \<or>
      committed (snd s') = committed w) \<and>
     ((\<exists>oc\<in>set (row_outcomes store_env rows
                    (tr @ [PgConnect], w\<lparr>session := Active (committed w)\<rparr>)). oc \<noteq> None) \<longrightarrow>
      committed (snd s') = committed w) \<and>
     (\<forall>n. res = Inr \<lparr>status = ''success'', rows_inserted = n\<rparr> \<longrightarrow>
        (if n = length rows then \<forall>row\<in>set rows. row_stored row (committed (snd s'))
         else committed (snd s') = committed w))"
proof (cases "db_up w")
  case False
  from d dag_load_store_down[OF False, of rows tr]
  have "res = Inl DataInjectionError" "snd s' = w" by auto
  moreover from l load_store_down[OF False, of rows tr] have "snd s'' = w" by auto
  ultimately show ?thesis by simp
next
  case True
  let ?a = "apply_rows rows (committed w)"
  let ?t = "case snd ?a of Some t' \<Rightarrow> t' | None \<Rightarrow> committed w"
  from dag_load_store[OF True d]
  have res: "res = Inr \<lparr>status = ''success'', rows_inserted = fst ?a\<rparr>"
    and s': "committed (snd s') = ?t" by simp_all
  from load_store[OF True l] have s'': "committed (snd s'') = ?t" by simp
  have oc: "row_outcomes store_env rows (tr @ [PgConnect], w\<lparr>session := Active (committed w)\<rparr>) =
      replicate (fst ?a) None @ replicate (length rows - fst ?a) (Some PsycopgError)"
    by (rule row_outcomes_active) simp
  show ?thesis
  proof (cases "snd ?a")
    case None
    from apply_rows_None[OF None] have "fst ?a \<noteq> length rows" by simp
    with None res s' s'' show ?thesis by simp
  next
    case (Some t')
    from apply_rows_Some[OF Some] have "fst ?a = length rows" "grows (committed w) t'"
        "\<forall>row\<in>set rows. row_stored row t'" by simp_all
    with Some res s' s'' oc show ?thesis by simp
  qed
qed

theorem row_atomicity_witness:
  "row_outcomes store_env [no_product_row]
     ([PgConnect], (snd (fresh []))\<lparr>session := Active empty_tables\<rparr>) = [Some PsycopgError] \<and>
   fst (execute_all store_env (take 1 (row_statements no_product_row))
     ([PgConnect], (snd (fresh []))\<lparr>session := Active empty_tables\<rparr>)) = Inr () \<and>
   committed (snd (snd (dag_load_data_to_postgres store_env (Some [no_product_row]) (fresh [])))) =
     empty_tables \<and>
   committed (snd (snd (load_data_to_postgres store_env [no_product_row] (fresh [])))) =
     empty_tables \<and>
   fst (dag_load_data_to_postgres store_env (Some [sample_row, third_row]) (fresh [])) =
     Inr \<lparr>status = ''success'', rows_inserted = 2\<rparr> \<and>
   row_stored sample_row
     (committed (snd (snd (dag_load_data_to_postgres store_env (Some [sample_row, third_row])
        (fresh []))))) \<and>
   row_stored third_row
     (committed (snd (snd (dag_load_data_to_postgres store_env (Some [sample_row, third_row])
        (fresh [])))))"
proof -
  let ?env = "store_env :: (nat, nat world) env"
  let ?w = "snd (fresh [])"
  have f: "fresh [] = ([], ?w)" by (simp add: fresh_def)
  have c: "committed ?w = empty_tables" by (simp add: fresh_def sample_world_def)
  obtain res s' where d: "dag_load_data_to_postgres ?env (Some [no_product_row]) ([], ?w) = (res, s')"
    by (cases "dag_load_data_to_postgres ?env (Some [no_product_row]) ([], ?w)")
  obtain res' s'' where l: "load_data_to_postgres ?env [no_product_row] ([], ?w) = (res', s'')"
    by (cases "load_data_to_postgres ?env [no_product_row] ([], ?w)")
  have oc: "row_outcomes ?env [no_product_row]
     ([PgConnect], ?w\<lparr>session := Active empty_tables\<rparr>) = [Some PsycopgError]" by code_simp
  have e1: "fst (execute_all ?env (take 1 (row_statements no_product_row))
     ([PgConnect], ?w\<lparr>session := Active empty_tables\<rparr>)) = Inr ()" by code_simp
  have st: "([] @ [PgConnect], ?w\<lparr>session := Active (committed ?w)\<rparr>) =
      ([PgConnect], ?w\<lparr>session := Active empty_tables\<rparr>)" by (simp only: c append_Nil)
  from row_atomicity[OF d l]
  have imp: "(\<exists>oc\<in>set (row_outcomes ?env [no_product_row]
                    ([] @ [PgConnect], ?w\<lparr>session := Active (committed ?w)\<rparr>)). oc \<noteq> None) \<longrightarrow>
      committed (snd s') = committed ?w"
    and eq: "committed (snd s'') = committed (snd s')" by blast+
  from imp[unfolded st oc] c have "committed (snd s') = empty_tables" by simp
  with eq have "committed (snd s') = empty_tables" "committed (snd s'') = empty_tables"
    by simp_all
  with d l f have 1:
    "committed (snd (snd (dag_load_data_to_postgres ?env (Some [no_product_row]) (fresh [])))) =
       empty_tables"
    "committed (snd (snd (load_data_to_postgres ?env [no_product_row] (fresh [])))) =
       empty_tables" by simp_all
  obtain r2 s2 where d2:
    "dag_load_data_to_postgres ?env (Some [sample_row, third_row]) ([], ?w) = (r2, s2)"
    by (cases "dag_load_data_to_postgres ?env (Some [sample_row, third_row]) ([], ?w)")
  obtain r3 s3 where l2:
    "load_data_to_postgres ?env [sample_row, third_row] ([], ?w) = (r3, s3)"
    by (cases "load_data_to_postgres ?env [sample_row, third_row] ([], ?w)")
  have "fst (dag_load_data_to_postgres ?env (Some [sample_row, third_row]) (fresh [])) =
     Inr \<lparr>status = ''success'', rows_inserted = 2\<rparr>" by code_simp
  with d2 f have r2: "r2 = Inr \<lparr>status = ''success'', rows_inserted = 2\<rparr>" by simp
  from row_atomicity[OF d2 l2]
  have "\<forall>n. r2 = Inr \<lparr>status = ''success'', rows_inserted = n\<rparr> \<longrightarrow>
        (if n = length [sample_row, third_row]
         then \<forall>row\<in>set [sample_row, third_row]. row_stored row (committed (snd s2))
         else committed (snd s2) = committed ?w)" by blast
  with r2
  have "row_stored sample_row (committed (snd s2))" "row_stored third_row (committed (snd s2))"
    by simp_all
  with d2 f r2 have 2:
    "fst (dag_load_data_to_postgres ?env (Some [sample_row, third_row]) (fresh [])) =
       Inr \<lparr>status = ''success'', rows_inserted = 2\<rparr>"
    "row_stored sample_row
       (committed (snd (snd (dag_load_data_to_postgres ?env (Some [sample_row, third_row])
          (fresh [])))))"
    "row_stored third_row
       (committed (snd (snd (dag_load_data_to_postgres ?env (Some [sample_row, third_row])
          (fresh [])))))" by simp_all
  from oc e1 1 2 show ?thesis by blast
qed

subsection \<open>A row that fails\<close>

lemma execute_all_first:
  assumes "execute_all env (q # qs) s = (r, s')"
  shows "\<exists>k. 1 \<le> k \<and> k \<le> Suc (length qs) \<and>
     fst s' = fst s @ map PgExecute (take k (q # qs)) \<and> (r = Inr () \<longrightarrow> k = Suc (length qs))"
proof (cases rule: call_cases[of "pg_execute env q" s "PgExecute q"])
  case (raise e w)
  with assms have "r = Inl e" "s' = (fst s @ [PgExecute q], w)" by auto
  then show ?thesis by (intro exI[of _ 1]) auto
next
  case (return x w)
  with assms have "execute_all env qs (fst s @ [PgExecute q], w) = (r, s')" by auto
  from execute_all_trace[OF this] obtain k where "k \<le> length qs"
      "fst s' = (fst s @ [PgExecute q]) @ map PgExecute (take k qs)"
      "r = Inr () \<longrightarrow> k = length qs" by auto
  then show ?thesis by (intro exI[of _ "Suc k"]) auto
qed

lemma row_attempted:
  assumes "execute_all env (row_statements row) s = (r, s')"
  shows "\<exists>k. attempted k (case r of Inl e \<Rightarrow> Some e | Inr u \<Rightarrow> None) \<and>
     fst s' = fst s @ map PgExecute (take k (row_statements row))"
proof -
  obtain q qs where qs: "row_statements row = q # qs" "length qs = 3"
    by (simp add: row_statements_def)
  from assms execute_all_first[of env q qs s r s'] qs obtain k where
    "1 \<le> k" "k \<le> 4" "fst s' = fst s @ map PgExecute (take k (row_statements row))"
    "r = Inr () \<longrightarrow> k = 4" by auto
  then show ?thesis by (intro exI[of _ k]) (auto simp: attempted_def split: sum.splits)
qed

lemma issued_none [simp]: "issued rows [] = []"
  by (simp add: issued_def)

lemma dag_insert_rows_attempted:
  "dag_insert_rows env rows n s = (m, s') \<Longrightarrow>
   \<exists>ks. list_all2 attempted ks (row_outcomes env rows s) \<and> fst s' = fst s @ issued rows ks"
proof (induction rows arbitrary: n s)
  case Nil
  then show ?case by auto
next
  case (Cons row rows)
  obtain r1 s1 where e: "execute_all env (row_statements row) s = (r1, s1)"
    by (cases "execute_all env (row_statements row) s")
  from row_attempted[OF e] obtain k where
    k: "attempted k (case r1 of Inl e \<Rightarrow> Some e | Inr u \<Rightarrow> None)"
      "fst s1 = fst s @ map PgExecute (take k (row_statements row))" by auto
  from e Cons.prems obtain n' where "dag_insert_rows env rows n' s1 = (m, s')"
    by (cases r1) auto
  from Cons.IH[OF this] obtain ks where
    ks: "list_all2 attempted ks (row_outcomes env rows s1)" "fst s' = fst s1 @ issued rows ks"
    by auto
  from k ks e show ?case by (intro exI[of _ "k # ks"]) (cases r1; simp)
qed

lemma insert_rows_attempted:
  "insert_rows env rows n s = (r, s') \<Longrightarrow>
   \<exists>ks. list_all2 attempted ks (take (length ks) (row_outcomes env rows s)) \<and>
        fst s' = fst s @ issued rows ks \<and> length ks \<le> length rows \<and>
        ((\<exists>m. r = Inr m) \<longrightarrow> length ks = length rows)"
proof (induction rows arbitrary: n s)
  case Nil
  then show ?case by auto
next
  case (Cons row rows)
  obtain r1 s1 where e: "execute_all env (row_statements row) s = (r1, s1)"
    by (cases "execute_all env (row_statements row) s")
  from row_attempted[OF e] obtain k where
    k: "attempted k (case r1 of Inl e \<Rightarrow> Some e | Inr u \<Rightarrow> None)"
      "fst s1 = fst s @ map PgExecute (take k (row_statements row))" by auto
  show ?case
  proof (cases "r1 = Inl PsycopgError \<or> (\<exists>u. r1 = Inr u)")
    case True
    with e Cons.prems obtain n' where "insert_rows env rows n' s1 = (r, s')" by auto
    from Cons.IH[OF this] obtain ks where
      ks: "list_all2 attempted ks (take (length ks) (row_outcomes env rows s1))"
        "fst s' = fst s1 @ issued rows ks" "length ks \<le> length rows"
        "(\<exists>m. r = Inr m) \<longrightarrow> length ks = length rows"
      by auto
    from k ks e show ?thesis by (intro exI[of _ "k # ks"]) (cases r1; simp)
  next
    case False
    then obtain ex where ex: "r1 = Inl ex" "ex \<noteq> PsycopgError" by (cases r1) auto
    with e Cons.prems have "s' = s1" "r = Inl ex" by simp_all
    with k e ex show ?thesis by (intro exI[of _ "[k]"]) simp
  qed
qed




lemma first_two_keys:
  assumes "apply_all (take 2 (row_statements row)) t = (True, t')"
  shows "has_key (customer_id row) (client t') \<and> has_key (product_id row) (product t')"
proof -
  from assms have f: "fst (apply_all (take 2 (row_statements row)) t)"
    and t': "snd (apply_all (take 2 (row_statements row)) t) = t'" by simp_all
  have "\<forall>q\<in>set (take 2 (row_statements row)). key_stored q t'"
    using apply_all_keys[OF f] t' by simp
  then show ?thesis by (simp add: row_statements_def key_stored_def)
qed

lemma first_three_keys:
  assumes "apply_all (take 3 (row_statements row)) t = (True, t')"
  shows "has_key (customer_id row) (client t') \<and> has_key (product_id row) (product t') \<and>
     has_key (sale_id row) (sale t')"
proof -
  from assms have f: "fst (apply_all (take 3 (row_statements row)) t)"
    and t': "snd (apply_all (take 3 (row_statements row)) t) = t'" by simp_all
  have "\<forall>q\<in>set (take 3 (row_statements row)). key_stored q t'"
    using apply_all_keys[OF f] t' by simp
  then show ?thesis by (simp add: row_statements_def key_stored_def)
qed

lemma has_key_insert_if_absent [simp]: "has_key (hd r) (insert_if_absent r t)"
  by (simp add: insert_if_absent_def)

lemma has_keys_apply_all:
  assumes "has_keys row"
  shows "\<exists>t'. apply_all (row_statements row) t = (True, t') \<and>
     (sale t' = sale t \<or>
      sale t' = sale t @ [[sale_id row, sale_date row, channel row, channel_campaigns row,
                           customer_id row]]) \<and>
     (has_key (sale_id row) (sale t) \<or>
      sale t' = sale t @ [[sale_id row, sale_date row, channel row, channel_campaigns row,
                           customer_id row]])"
proof -
  let ?c = "[customer_id row, first_name row, last_name row, email row, country row,
             signup_date row, gender row, age_range row]"
  let ?p = "[product_id row, product_name row, brand row, category row, cost_price row,
             color row, size_col row, catalog_price row]"
  let ?sa = "[sale_id row, sale_date row, channel row, channel_campaigns row, customer_id row]"
  let ?sp = "[item_id row, sale_id row, product_id row, quantity row, discount_applied row]"
  from assms have k: "customer_id row \<noteq> Null" "product_id row \<noteq> Null" "sale_id row \<noteq> Null"
      "item_id row \<noteq> Null" by (simp_all add: has_keys_def)
  define t1 where "t1 = t\<lparr>client := insert_if_absent ?c (client t)\<rparr>"
  define t2 where "t2 = t1\<lparr>product := insert_if_absent ?p (product t1)\<rparr>"
  define t3 where "t3 = (if has_key (sale_id row) (sale t2) then t2 else t2\<lparr>sale := sale t2 @ [?sa]\<rparr>)"
  define t4 where "t4 = (if has_key (item_id row) (sale_product t3) then t3
                         else t3\<lparr>sale_product := sale_product t3 @ [?sp]\<rparr>)"
  have a1: "apply_stmt (InsertClient ?c) t = Some t1"
    using k by (simp add: apply_stmt_def t1_def)
  have a2: "apply_stmt (InsertProduct ?p) t1 = Some t2"
    using k by (simp add: apply_stmt_def t2_def)
  have c2: "has_key (customer_id row) (client t2)"
    using has_key_insert_if_absent[of ?c "client t"] by (simp add: t2_def t1_def)
  have p2: "has_key (product_id row) (product t2)"
    using has_key_insert_if_absent[of ?p "product t1"] by (simp add: t2_def)
  have a3: "apply_stmt (InsertSale ?sa) t2 = Some t3"
    using k c2 by (simp add: apply_stmt_def t3_def)
  have s3: "has_key (sale_id row) (sale t3)"
    using has_key_append[of ?sa "sale t2"] by (simp add: t3_def)
  have p3: "has_key (product_id row) (product t3)" using p2 by (simp add: t3_def)
  have a4: "apply_stmt (InsertSaleProduct ?sp) t3 = Some t4"
    using k s3 p3 by (simp add: apply_stmt_def t4_def)
  have "apply_all (row_statements row) t = (True, t4)"
    using a1 a2 a3 a4 by (simp add: row_statements_def)
  moreover have "sale t2 = sale t" by (simp add: t2_def t1_def)
  then have "sale t4 = sale t3" "sale t3 = sale t \<or> sale t3 = sale t @ [?sa]"
    "has_key (sale_id row) (sale t) \<or> sale t3 = sale t @ [?sa]"
    by (simp_all add: t4_def t3_def)
  ultimately show ?thesis by auto
qed

text \<open>
  Claim C5. Both loops issue, row after row and nothing else, the statements of
  \<open>row_statements\<close> in its order, which is the inserts into \<open>client\<close>, \<open>product\<close>,
  \<open>sale\<close> and \<open>sale_product\<close>: at least the first one for every row attempted, and all
  four when the row raises nothing. The loop of the DAG attempts every row; the loop of
  \<open>src/main.py\<close> attempts every row when it returns, and the rows up to the one that
  raised something other than a storage error otherwise. On the store above, after the
  first two inserts of a row its client and its product are in their tables, and after
  the third its sale: the keys a sale and a line item refer to are there when their
  insert is issued, and a row that carries its four keys completes.
\<close>

theorem insertion_order:
  fixes env :: "('n, 'w) env" and row :: "'n sale_record"
  shows "(\<exists>ks. list_all2 attempted ks (row_outcomes env rows s) \<and>
         fst (snd (dag_insert_rows env rows n s)) = fst s @ issued rows ks) \<and>
   (\<exists>ks. list_all2 attempted ks (take (length ks) (row_outcomes env rows s)) \<and>
         fst (snd (insert_rows env rows n s)) = fst s @ issued rows ks \<and>
         ((\<exists>m. fst (insert_rows env rows n s) = Inr m) \<longrightarrow> length ks = length rows)) \<and>
   (\<forall>t'. apply_all (take 2 (row_statements row)) t = (True, t') \<longrightarrow>
         has_key (customer_id row) (client t') \<and> has_key (product_id row) (product t')) \<and>
   (\<forall>t'. apply_all (take 3 (row_statements row)) t = (True, t') \<longrightarrow>
         has_key (sale_id row) (sale t') \<and> has_key (product_id row) (product t')) \<and>
   (has_keys row \<longrightarrow> fst (apply_all (row_statements row) t))"
proof (intro conjI)
  obtain m s' where "dag_insert_rows env rows n s = (m, s')"
    by (cases "dag_insert_rows env rows n s")
  from dag_insert_rows_attempted[OF this] this
  show "\<exists>ks. list_all2 attempted ks (row_outcomes env rows s) \<and>
         fst (snd (dag_insert_rows env rows n s)) = fst s @ issued rows ks" by simp
next
  obtain r s' where "insert_rows env rows n s = (r, s')" by (cases "insert_rows env rows n s")
  from insert_rows_attempted[OF this] this
  show "\<exists>ks. list_all2 attempted ks (take (length ks) (row_outcomes env rows s)) \<and>
         fst (snd (insert_rows env rows n s)) = fst s @ issued rows ks \<and>
         ((\<exists>m. fst (insert_rows env rows n s) = Inr m) \<longrightarrow> length ks = length rows)"
    by auto
next
  show "\<forall>t'. apply_all (take 2 (row_statements row)) t = (True, t') \<longrightarrow>
         has_key (customer_id row) (client t') \<and> has_key (product_id row) (product t')"
    using first_two_keys by blast
next
  show "\<forall>t'. apply_all (take 3 (row_statements row)) t = (True, t') \<longrightarrow>
         has_key (sale_id row) (sale t') \<and> has_key (product_id row) (product t')"
    using first_three_keys by blast
next
  show "has_keys row \<longrightarrow> fst (apply_all (row_statements row) t)"
    using has_keys_apply_all[of row t] by auto
qed

theorem insertion_order_witness:
  "row_outcomes store_env [sample_row]
     ([PgConnect], (snd (fresh []))\<lparr>session := Active empty_tables\<rparr>) = [None] \<and>
   fst (snd (dag_insert_rows store_env [sample_row] 0
     ([PgConnect], (snd (fresh []))\<lparr>session := Active empty_tables\<rparr>))) =
     [PgConnect] @ map PgExecute (row_statements sample_row) \<and>
   fst (snd (insert_rows store_env [sample_row] 0
     ([PgConnect], (snd (fresh []))\<lparr>session := Active empty_tables\<rparr>))) =
     [PgConnect] @ map PgExecute (row_statements sample_row) \<and>
   has_keys sample_row \<and>
   fst (apply_all (row_statements sample_row) empty_tables) \<and>
   has_key (customer_id sample_row)
     (client (snd (apply_all (take 2 (row_statements sample_row)) empty_tables))) \<and>
   has_key (product_id sample_row)
     (product (snd (apply_all (take 2 (row_statements sample_row)) empty_tables))) \<and>
   apply_stmt (row_statements sample_row ! 2) empty_tables = None"
proof -
  let ?env = "store_env :: (nat, nat world) env"
  let ?s1 = "([PgConnect], (snd (fresh []))\<lparr>session := Active empty_tables\<rparr>)"
  note th = insertion_order[where env = ?env and rows = "[sample_row]" and s = ?s1 and n = 0
      and row = sample_row and t = empty_tables]
  have oc: "row_outcomes ?env [sample_row] ?s1 = [None]" by code_simp
  have four: "\<And>k. attempted k None \<Longrightarrow> k = 4" by (simp add: attempted_def)
  from th obtain ks where "list_all2 attempted ks (row_outcomes ?env [sample_row] ?s1)"
    and tr: "fst (snd (dag_insert_rows ?env [sample_row] 0 ?s1)) = fst ?s1 @ issued [sample_row] ks"
    by blast
  then have "ks = [4]" unfolding oc by (auto simp: list_all2_Cons2 dest: four)
  with tr have 1: "fst (snd (dag_insert_rows ?env [sample_row] 0 ?s1)) =
      [PgConnect] @ map PgExecute (row_statements sample_row)" by simp
  have ir: "\<exists>m. fst (insert_rows ?env [sample_row] 0 ?s1) = Inr m"
  proof -
    have "fst (insert_rows ?env [sample_row] 0 ?s1) = Inr 1" by code_simp
    then show ?thesis by blast
  qed
  from th obtain ks' where
    a: "list_all2 attempted ks' (take (length ks') (row_outcomes ?env [sample_row] ?s1))"
    and tr': "fst (snd (insert_rows ?env [sample_row] 0 ?s1)) = fst ?s1 @ issued [sample_row] ks'"
    and len: "(\<exists>m. fst (insert_rows ?env [sample_row] 0 ?s1) = Inr m) \<longrightarrow>
        length ks' = length [sample_row]"
    by blast
  from len ir have "length ks' = 1" by simp
  with a have "ks' = [4]" unfolding oc by (auto simp: list_all2_Cons2 dest: four)
  with tr' have 2: "fst (snd (insert_rows ?env [sample_row] 0 ?s1)) =
      [PgConnect] @ map PgExecute (row_statements sample_row)" by simp
  have hk: "has_keys sample_row" by code_simp
  from th hk have 3: "fst (apply_all (row_statements sample_row) empty_tables)" by blast
  have "fst (apply_all (take 2 (row_statements sample_row)) empty_tables)" by code_simp
  then have "apply_all (take 2 (row_statements sample_row)) empty_tables =
      (True, snd (apply_all (take 2 (row_statements sample_row)) empty_tables))"
    by (simp add: prod_eq_iff)
  with th have 4: "has_key (customer_id sample_row)
       (client (snd (apply_all (take 2 (row_statements sample_row)) empty_tables))) \<and>
     has_key (product_id sample_row)
       (product (snd (apply_all (take 2 (row_statements sample_row)) empty_tables)))"
    by blast
  have 5: "apply_stmt (row_statements sample_row ! 2) empty_tables = None" by code_simp
  from oc 1 2 hk 3 4 5 show ?thesis by blast
qed

subsection \<open>The extract of an early year\<close>


subsection \<open>A second run\<close>









end
